theory Spec2Isabelle
  imports Complex_Main "HOL-Library.AList"
begin

section \<open>The SLAM interface of \<^verbatim>\<open>deprecated/mapping/gtsam.py\<close>\<close>

text \<open>
  The module wraps an incremental smoother (ISAM2) and a factor-graph library.  Both are
  collaborators that are not part of the repository; the embedding keeps them as
  parameters (record \<open>collab\<close> below) and models only the containers whose contents the
  Python code itself reads and writes:
  \<^item> a \<^verbatim>\<open>NonlinearFactorGraph\<close> is the list of the factors added since the last
    \<^verbatim>\<open>resize(0)\<close>;
  \<^item> a \<^verbatim>\<open>Values\<close> container is an association list, and inserting a key that is
    already present raises, as the library does;
  \<^item> a Python \<^verbatim>\<open>dict\<close> is an association list read with \<open>map_of\<close>, written with
    \<open>AList.update\<close> and \<open>AList.delete\<close>; its keys are visited in list order (CPython 2
    visits them in hash order; no statement below depends on the order);
  \<^item> floating-point numbers are real numbers, which are only stored and compared;
  \<^item> the locks, the timing decorator and everything that is printed are left out.
  Python attribute names end in an underscore (\<^verbatim>\<open>idx_\<close>, \<^verbatim>\<open>graph_\<close>); the record fields
  drop it, since such a name is internal to Isabelle.
\<close>

subsection \<open>Keys, values and factors\<close>

datatype key = Symbol char int

definition symbol :: "char \<Rightarrow> int \<Rightarrow> key" where
  "symbol ch i = Symbol ch i"

fun chr :: "key \<Rightarrow> char" where
  "chr (Symbol ch i) = ch"

fun index :: "key \<Rightarrow> int" where
  "index (Symbol ch i) = i"

type_synonym point2 = "real \<times> real"
type_synonym point3 = "real \<times> real \<times> real"
type_synonym cov = "real list list"

datatype noise = Sigmas "real list"

datatype cal3_s2 = Cal3_S2 real real real real real

datatype 'p gvalue = Pose3 'p | Point3 point3 | SwitchVariableSigmoid real

type_synonym 'p Values = "(key \<times> 'p gvalue) list"

datatype 'p factor =
    PriorFactorPose3 key 'p noise
  | BetweenFactorPose3 key key 'p noise
  | PriorFactorSwitchVariableSigmoid key real noise
  | BetweenFactorSwitchableSigmoidPose3 key key key 'p noise
  | GenericProjectionFactorPose3Point3Cal3_S2 point2 noise key key cal3_s2
  | PriorFactorPoint3 key point3 noise

datatype 'p landmark = LandmarkPose 'p | LandmarkPoint point3

subsection \<open>Exceptions and results\<close>

text \<open>
  A Python method mutates the object and then either returns or raises; in both cases
  the object keeps the mutations made so far.  A result therefore carries the state
  in both branches.
\<close>

datatype exn =
    KeyError | RuntimeError | AssertionError | IndexError
  | ValuesKeyAlreadyExists | SolverException

datatype ('a, 's) res = Return 'a 's | Raise exn 's

fun state_of :: "('a, 's) res \<Rightarrow> 's" where
  "state_of (Return a s) = s"
| "state_of (Raise e s) = s"

fun returns :: "('a, 's) res \<Rightarrow> bool" where
  "returns (Return a s) = True"
| "returns (Raise e s) = False"

fun seq :: "('a, 's) res \<Rightarrow> ('a \<Rightarrow> 's \<Rightarrow> ('b, 's) res) \<Rightarrow> ('b, 's) res" where
  "seq (Return a s) f = f a s"
| "seq (Raise e s) f = Raise e s"

definition insert_values :: "key \<Rightarrow> 'p gvalue \<Rightarrow> 'p Values \<Rightarrow> exn + 'p Values" where
  "insert_values k v vs =
     (if map_of vs k = None then Inr (vs @ [(k, v)]) else Inl ValuesKeyAlreadyExists)"

definition dict_keys :: "('k \<times> 'v) list \<Rightarrow> 'k list" where
  "dict_keys d = remdups (map fst d)"

subsection \<open>Smart factors and the pending records\<close>

record smart_factor =
  keys :: "key list"
  measured :: "point2 list"

definition SmartFactor :: smart_factor where
  "SmartFactor = \<lparr>keys = [], measured = []\<rparr>"

definition add_single :: "point2 \<Rightarrow> key \<Rightarrow> smart_factor \<Rightarrow> smart_factor" where
  "add_single pt x_id f = f\<lparr>keys := keys f @ [x_id], measured := measured f @ [pt]\<rparr>"

record lid_factor =
  in_graph :: bool
  count :: int
  factor :: smart_factor

definition default_lid_factor :: lid_factor where
  "default_lid_factor = \<lparr>in_graph = False, count = 0, factor = SmartFactor\<rparr>"

subsection \<open>The collaborators\<close>

text \<open>
  \<open>'i\<close> is the state of the incremental solver and \<open>'p\<close> the type of rigid transforms.
  A solver call that can fail returns a result; the routines of the smart factor and
  \<^verbatim>\<open>calculateEstimate\<close> are taken to return normally.
\<close>

record ('i, 'p) collab =
  identity :: 'p
  oplus :: "'p \<Rightarrow> 'p \<Rightarrow> 'p"
  transform_from :: "'p \<Rightarrow> point3 \<Rightarrow> point3 option"
  ISAM2 :: 'i
  isam_update :: "'i \<Rightarrow> 'p factor list \<Rightarrow> 'p Values \<Rightarrow> (unit, 'i) res"
  isam_update0 :: "'i \<Rightarrow> (unit, 'i) res"
  calculateEstimate :: "'i \<Rightarrow> 'p Values"
  marginalCovariance :: "'i \<Rightarrow> key \<Rightarrow> exn + cov"
  optimize :: "'p factor list \<Rightarrow> 'p Values \<Rightarrow> exn + 'p Values"
  isDegenerate :: "smart_factor \<Rightarrow> bool"
  isPointBehindCamera :: "smart_factor \<Rightarrow> bool"
  smart_error :: "smart_factor \<Rightarrow> 'p Values \<Rightarrow> real"
  point_compute :: "smart_factor \<Rightarrow> 'p Values \<Rightarrow> point3"

subsection \<open>\<^verbatim>\<open>BaseSLAM\<close>\<close>

record ('i, 'p) base_slam =
  slam :: 'i
  idx :: int
  verbose :: bool
  graph :: "'p factor list"
  initial :: "'p Values"
  measurement_noise :: noise
  prior_pose_noise :: noise
  odo_noise :: noise
  xs :: "(int \<times> 'p) list"
  ls :: "(int \<times> 'p landmark) list"
  xls :: "(int \<times> int) list"
  xxs :: "(int \<times> int) list"
  xcovs :: "(int \<times> cov) list"
  lcovs :: "(int \<times> cov) list"
  current :: "'p Values option"
  robust :: bool
  switch :: "real list"

text \<open>
  \<^verbatim>\<open>BaseSLAM.__init__\<close>.  The argument \<open>robust_arg\<close> is the keyword argument
  \<^verbatim>\<open>robust\<close>; the body assigns \<^verbatim>\<open>self.robust_ = True\<close> whatever its value.
\<close>

definition BaseSLAM_init ::
  "('i, 'p) collab \<Rightarrow> real list \<Rightarrow> real list \<Rightarrow> real list \<Rightarrow> bool \<Rightarrow> bool \<Rightarrow> bool
     \<Rightarrow> ('i, 'p) base_slam" where
  "BaseSLAM_init c odom_noise prior_noise meas_noise robust_arg verbose_arg export_graph =
     \<lparr>slam = ISAM2 c, idx = -1, verbose = verbose_arg, graph = [], initial = [],
      measurement_noise = Sigmas meas_noise, prior_pose_noise = Sigmas prior_noise,
      odo_noise = Sigmas odom_noise, xs = [], ls = [], xls = [], xxs = [],
      xcovs = [], lcovs = [], current = None, robust = True, switch = []\<rparr>"

definition latest :: "('i, 'p, 'z) base_slam_scheme \<Rightarrow> int" where
  "latest self = idx self"

definition is_initialized :: "('i, 'p, 'z) base_slam_scheme \<Rightarrow> bool" where
  "is_initialized self = (latest self \<ge> 0)"

definition estimate_available :: "('i, 'p, 'z) base_slam_scheme \<Rightarrow> bool" where
  "estimate_available self = (current self \<noteq> None)"

definition sigmas_or :: "real list option \<Rightarrow> noise \<Rightarrow> noise" where
  "sigmas_or nz dflt = (case nz of Some n \<Rightarrow> Sigmas n | None \<Rightarrow> dflt)"

definition initialize ::
  "('i, 'p, 'z) base_slam_scheme \<Rightarrow> 'p \<Rightarrow> int \<Rightarrow> real list option
     \<Rightarrow> (unit, ('i, 'p, 'z) base_slam_scheme) res" where
  "initialize self p ix nz =
     (let x_id = symbol CHR ''x'' ix;
          s1 = self\<lparr>graph := graph self @
                 [PriorFactorPose3 x_id p (sigmas_or nz (prior_pose_noise self))]\<rparr>
      in case insert_values x_id (Pose3 p) (initial s1) of
           Inl e \<Rightarrow> Raise e s1
         | Inr vs \<Rightarrow>
             Return () (s1\<lparr>initial := vs, xs := AList.update ix p (xs s1), idx := ix\<rparr>))"

definition add_pose_prior ::
  "('i, 'p, 'z) base_slam_scheme \<Rightarrow> int \<Rightarrow> 'p \<Rightarrow> real list option
     \<Rightarrow> (unit, ('i, 'p, 'z) base_slam_scheme) res" where
  "add_pose_prior self ix p nz =
     Return () (self\<lparr>graph := graph self @
        [PriorFactorPose3 (symbol CHR ''x'' ix) p (sigmas_or nz (prior_pose_noise self))]\<rparr>)"

definition add_relative_pose_constraint ::
  "('i, 'p) collab \<Rightarrow> ('i, 'p, 'z) base_slam_scheme \<Rightarrow> int \<Rightarrow> int \<Rightarrow> 'p \<Rightarrow> real list option
     \<Rightarrow> (unit, ('i, 'p, 'z) base_slam_scheme) res" where
  "add_relative_pose_constraint c self xid1 xid2 delta nz =
     (let x_id1 = symbol CHR ''x'' xid1;
          x_id2 = symbol CHR ''x'' xid2
      in seq
        (if robust self then
           (let switch_idx = int (length (switch self));
                s1 = self\<lparr>switch := switch self @ [1]\<rparr>
            in case insert_values (symbol CHR ''s'' switch_idx) (SwitchVariableSigmoid 1)
                      (initial s1) of
                 Inl e \<Rightarrow> Raise e s1
               | Inr vs \<Rightarrow>
                   Return () (s1\<lparr>initial := vs, graph := graph s1 @
                     [PriorFactorSwitchVariableSigmoid (symbol CHR ''s'' switch_idx) 1
                        (Sigmas [2]),
                      BetweenFactorSwitchableSigmoidPose3 x_id1 x_id2
                        (symbol CHR ''s'' switch_idx) delta (sigmas_or nz (odo_noise s1))]\<rparr>))
         else
           Return () (self\<lparr>graph := graph self @
             [BetweenFactorPose3 x_id1 x_id2 delta (sigmas_or nz (odo_noise self))]\<rparr>))
        (\<lambda>_ s2. seq
           (if map_of (xs s2) xid2 = None then
              (case map_of (xs s2) xid1 of
                 None \<Rightarrow> Raise KeyError s2
               | Some p1 \<Rightarrow>
                   (let pred_pose = oplus c p1 delta
                    in case insert_values x_id2 (Pose3 pred_pose) (initial s2) of
                         Inl e \<Rightarrow> Raise e s2
                       | Inr vs \<Rightarrow>
                           Return () (s2\<lparr>initial := vs,
                             xs := AList.update xid2 pred_pose (xs s2)\<rparr>)))
            else Return () s2)
           (\<lambda>_ s3. Return () (s3\<lparr>xxs := xxs s3 @ [(xid1, xid2)]\<rparr>))))"

definition add_incremental_pose_constraint ::
  "('i, 'p) collab \<Rightarrow> ('i, 'p, 'z) base_slam_scheme \<Rightarrow> 'p \<Rightarrow> real list option
     \<Rightarrow> (unit, ('i, 'p, 'z) base_slam_scheme) res" where
  "add_incremental_pose_constraint c self delta nz =
     seq (if \<not> is_initialized self then initialize self (identity c) 0 None
          else Return () self)
       (\<lambda>_ s1. seq (add_relative_pose_constraint c s1 (latest s1) (latest s1 + 1) delta nz)
          (\<lambda>_ s2. Return () (s2\<lparr>idx := idx s2 + 1\<rparr>)))"


fun add_pose_landmarks_loop ::
  "('i, 'p) collab \<Rightarrow> int \<Rightarrow> (key \<times> int \<times> 'p) list \<Rightarrow> ('i, 'p, 'z) base_slam_scheme
     \<Rightarrow> (unit, ('i, 'p, 'z) base_slam_scheme) res" where
  "add_pose_landmarks_loop c xid [] self = Return () self"
| "add_pose_landmarks_loop c xid ((l_id, lid, delta) # rest) self =
     (if map_of (ls self) lid = None then
        (case map_of (xs self) xid of
           None \<Rightarrow> Raise KeyError self
         | Some p \<Rightarrow>
             (let pred_pose = oplus c p delta
              in case insert_values l_id (Pose3 pred_pose) (initial self) of
                   Inl e \<Rightarrow> Raise KeyError self
                 | Inr vs \<Rightarrow>
                     add_pose_landmarks_loop c xid rest
                       (self\<lparr>initial := vs,
                          ls := AList.update lid (LandmarkPose pred_pose) (ls self)\<rparr>)))
      else add_pose_landmarks_loop c xid rest self)"

definition add_pose_landmarks ::
  "('i, 'p) collab \<Rightarrow> ('i, 'p, 'z) base_slam_scheme \<Rightarrow> int \<Rightarrow> int list \<Rightarrow> 'p list
     \<Rightarrow> real list option \<Rightarrow> (unit, ('i, 'p, 'z) base_slam_scheme) res" where
  "add_pose_landmarks c self xid lids deltas nz =
     (let x_id = symbol CHR ''x'' xid;
          l_ids = map (symbol CHR ''l'') lids;
          nzm = sigmas_or nz (measurement_noise self)
      in if length l_ids \<noteq> length deltas then Raise AssertionError self
         else
           (let s1 = self\<lparr>graph := graph self @
                       map (\<lambda>(l_id, delta). BetweenFactorPose3 x_id l_id delta nzm)
                         (zip l_ids deltas)\<rparr>;
                s2 = s1\<lparr>xls := xls s1 @ map (\<lambda>lid. (xid, lid)) lids\<rparr>
            in add_pose_landmarks_loop c xid (zip l_ids (zip lids deltas)) s2))"

definition add_pose_landmarks_incremental ::
  "('i, 'p) collab \<Rightarrow> ('i, 'p, 'z) base_slam_scheme \<Rightarrow> int list \<Rightarrow> 'p list
     \<Rightarrow> real list option \<Rightarrow> (unit, ('i, 'p, 'z) base_slam_scheme) res" where
  "add_pose_landmarks_incremental c self lid delta nz =
     add_pose_landmarks c self (latest self) lid delta nz"

text \<open>\<^verbatim>\<open>BaseSLAM._update\<close>; \<^verbatim>\<open>VisualSLAM\<close> overrides it.  In the handler the interactive
  shell that the code opens before it raises is left out.\<close>

definition BaseSLAM_update ::
  "('i, 'p) collab \<Rightarrow> ('i, 'p, 'z) base_slam_scheme
     \<Rightarrow> (unit, ('i, 'p, 'z) base_slam_scheme) res" where
  "BaseSLAM_update c self =
     (case isam_update c (slam self) (graph self) (initial self) of
        Raise e i \<Rightarrow> Raise RuntimeError (self\<lparr>slam := i\<rparr>)
      | Return _ i1 \<Rightarrow>
          (case isam_update0 c i1 of
             Raise e i \<Rightarrow> Raise RuntimeError (self\<lparr>slam := i\<rparr>)
           | Return _ i2 \<Rightarrow>
               Return () (self\<lparr>slam := i2, graph := [], initial := [],
                 current := Some (calculateEstimate c i2)\<rparr>)))"

definition batch_solve ::
  "('i, 'p) collab \<Rightarrow> ('i, 'p, 'z) base_slam_scheme
     \<Rightarrow> (unit, ('i, 'p, 'z) base_slam_scheme) res" where
  "batch_solve c self =
     (case optimize c (graph self) (initial self) of
        Inl e \<Rightarrow> Raise e self
      | Inr v \<Rightarrow> Return () (self\<lparr>current := Some v\<rparr>))"

definition extractPose3 :: "'p Values \<Rightarrow> (key \<times> 'p) list" where
  "extractPose3 vs = concat (map (\<lambda>(k, v). case v of Pose3 p \<Rightarrow> [(k, p)] | _ \<Rightarrow> []) vs)"

definition extractPoint3 :: "'p Values \<Rightarrow> (key \<times> point3) list" where
  "extractPoint3 vs = concat (map (\<lambda>(k, v). case v of Point3 q \<Rightarrow> [(k, q)] | _ \<Rightarrow> []) vs)"

definition extractSwitchVariableSigmoid :: "'p Values \<Rightarrow> (key \<times> real) list" where
  "extractSwitchVariableSigmoid vs =
     concat (map (\<lambda>(k, v). case v of SwitchVariableSigmoid w \<Rightarrow> [(k, w)] | _ \<Rightarrow> []) vs)"

fun update_estimates_poses ::
  "(key \<times> 'p) list \<Rightarrow> ('i, 'p, 'z) base_slam_scheme
     \<Rightarrow> (unit, ('i, 'p, 'z) base_slam_scheme) res" where
  "update_estimates_poses [] self = Return () self"
| "update_estimates_poses ((k, v) # rest) self =
     (if chr k = CHR ''l'' then
        update_estimates_poses rest
          (self\<lparr>ls := AList.update (index k) (LandmarkPose v) (ls self)\<rparr>)
      else if chr k = CHR ''x'' then
        update_estimates_poses rest (self\<lparr>xs := AList.update (index k) v (xs self)\<rparr>)
      else Raise RuntimeError self)"

fun update_estimates_landmarks ::
  "(key \<times> point3) list \<Rightarrow> ('i, 'p, 'z) base_slam_scheme
     \<Rightarrow> (unit, ('i, 'p, 'z) base_slam_scheme) res" where
  "update_estimates_landmarks [] self = Return () self"
| "update_estimates_landmarks ((k, v) # rest) self =
     (if chr k = CHR ''l'' then
        update_estimates_landmarks rest
          (self\<lparr>ls := AList.update (index k) (LandmarkPoint v) (ls self)\<rparr>)
      else Raise RuntimeError self)"

text \<open>An assignment to a list item: a negative index counts from the end, an index out
  of range raises.\<close>

fun update_estimates_switches ::
  "(key \<times> real) list \<Rightarrow> ('i, 'p, 'z) base_slam_scheme
     \<Rightarrow> (unit, ('i, 'p, 'z) base_slam_scheme) res" where
  "update_estimates_switches [] self = Return () self"
| "update_estimates_switches ((k, v) # rest) self =
     (let n = int (length (switch self));
          j = (if index k < 0 then index k + n else index k)
      in if 0 \<le> j \<and> j < n then
           update_estimates_switches rest (self\<lparr>switch := (switch self)[nat j := v]\<rparr>)
         else Raise IndexError self)"

definition update_estimates ::
  "('i, 'p, 'z) base_slam_scheme \<Rightarrow> (unit, ('i, 'p, 'z) base_slam_scheme) res" where
  "update_estimates self =
     (case current self of
        None \<Rightarrow> Raise RuntimeError self
      | Some cur \<Rightarrow>
          seq (update_estimates_poses (extractPose3 cur) self)
            (\<lambda>_ s1. seq (update_estimates_landmarks (extractPoint3 cur) s1)
               (\<lambda>_ s2. update_estimates_switches (extractSwitchVariableSigmoid cur) s2)))"

fun update_marginals_poses ::
  "('i, 'p) collab \<Rightarrow> int list \<Rightarrow> ('i, 'p, 'z) base_slam_scheme
     \<Rightarrow> (unit, ('i, 'p, 'z) base_slam_scheme) res" where
  "update_marginals_poses c [] self = Return () self"
| "update_marginals_poses c (xid # rest) self =
     (case marginalCovariance c (slam self) (symbol CHR ''x'' xid) of
        Inl e \<Rightarrow> Raise e self
      | Inr m \<Rightarrow>
          update_marginals_poses c rest (self\<lparr>xcovs := AList.update xid m (xcovs self)\<rparr>))"

fun update_marginals_landmarks ::
  "('i, 'p) collab \<Rightarrow> int list \<Rightarrow> ('i, 'p, 'z) base_slam_scheme
     \<Rightarrow> (unit, ('i, 'p, 'z) base_slam_scheme) res" where
  "update_marginals_landmarks c [] self = Return () self"
| "update_marginals_landmarks c (lid # rest) self =
     (case marginalCovariance c (slam self) (symbol CHR ''l'' lid) of
        Inl e \<Rightarrow> Raise e self
      | Inr m \<Rightarrow>
          update_marginals_landmarks c rest
            (self\<lparr>lcovs := AList.update lid m (lcovs self)\<rparr>))"

definition update_marginals ::
  "('i, 'p) collab \<Rightarrow> ('i, 'p, 'z) base_slam_scheme
     \<Rightarrow> (unit, ('i, 'p, 'z) base_slam_scheme) res" where
  "update_marginals c self =
     (if \<not> estimate_available self then Raise RuntimeError self
      else seq (update_marginals_poses c (dict_keys (xs self)) self)
             (\<lambda>_ s1. update_marginals_landmarks c (dict_keys (ls s1)) s1))"

subsection \<open>\<^verbatim>\<open>VisualSLAM\<close>\<close>

record ('i, 'p) visual_slam = "('i, 'p) base_slam" +
  batch_init :: bool
  px_error_threshold :: real
  min_landmark_obs :: int
  K :: cal3_s2
  lid_count :: "int \<Rightarrow> nat"
  lid_factors :: "(int \<times> lid_factor) list"
  image_measurement_noise :: noise
  prior_point3d_noise :: noise

text \<open>
  \<^verbatim>\<open>VisualSLAM.__init__\<close>.  The calibration object is read through its four
  attributes \<^verbatim>\<open>fx, fy, cx, cy\<close>.  The constructor of the base class is called without
  \<^verbatim>\<open>measurement_noise\<close> and \<^verbatim>\<open>robust\<close>, which take their defaults; the default
  \<^verbatim>\<open>cfg.MEASUREMENT_NOISE\<close> lives in a module outside the sources and is the parameter
  \<open>cfg_measurement_noise\<close>.  A failed assertion leaves no object behind.
\<close>

definition VisualSLAM_init ::
  "('i, 'p) collab \<Rightarrow> real list \<Rightarrow> real \<times> real \<times> real \<times> real \<Rightarrow> int \<Rightarrow> real list
     \<Rightarrow> real list \<Rightarrow> real list \<Rightarrow> real \<Rightarrow> real list \<Rightarrow> bool
     \<Rightarrow> exn + ('i, 'p) visual_slam" where
  "VisualSLAM_init c cfg_measurement_noise calib min_obs odom_noise prior_noise
       prior_point3d px_thr px_noise verbose_arg =
     (let base = BaseSLAM_init c odom_noise prior_noise cfg_measurement_noise True
                   verbose_arg False
      in if \<not> (min_obs \<ge> 2) then Inl AssertionError
         else (case calib of (fx, fy, cx, cy) \<Rightarrow>
           Inr (base_slam.extend base
                 (visual_slam.fields False px_thr min_obs (Cal3_S2 fx fy 0 cx cy) (\<lambda>_. 0) []
                    (Sigmas px_noise) (Sigmas prior_point3d)))))"

definition add_landmark_prior ::
  "('i, 'p) visual_slam \<Rightarrow> int \<Rightarrow> point3 \<Rightarrow> real list option
     \<Rightarrow> (unit, ('i, 'p) visual_slam) res" where
  "add_landmark_prior self ix p nz =
     Return () (self\<lparr>graph := graph self @
        [PriorFactorPoint3 (symbol CHR ''l'' ix) p (sigmas_or nz (prior_point3d_noise self))]\<rparr>)"

text \<open>\<^verbatim>\<open>BaseSLAM.add_point_landmarks\<close> reads \<^verbatim>\<open>lid_count_\<close>, \<^verbatim>\<open>image_measurement_noise_\<close>
  and \<^verbatim>\<open>K_\<close>, which only a \<^verbatim>\<open>VisualSLAM\<close> object has.\<close>

fun add_point_landmarks_loop ::
  "('i, 'p) collab \<Rightarrow> int \<Rightarrow> (key \<times> int \<times> point3) list \<Rightarrow> ('i, 'p) visual_slam
     \<Rightarrow> (unit, ('i, 'p) visual_slam) res" where
  "add_point_landmarks_loop c xid [] self = Return () self"
| "add_point_landmarks_loop c xid ((l_id, lid, pt3) # rest) self =
     (if map_of (ls self) lid = None then
        (case map_of (xs self) xid of
           None \<Rightarrow> Raise RuntimeError self
         | Some p \<Rightarrow>
             (case transform_from c p pt3 of
                None \<Rightarrow> Raise RuntimeError self
              | Some pred_pt3 \<Rightarrow>
                  (case insert_values l_id (Point3 pred_pt3) (initial self) of
                     Inl e \<Rightarrow> Raise RuntimeError self
                   | Inr vs \<Rightarrow>
                       add_point_landmarks_loop c xid rest
                         (self\<lparr>initial := vs,
                            ls := AList.update lid (LandmarkPoint pred_pt3) (ls self)\<rparr>))))
      else add_point_landmarks_loop c xid rest self)"

definition add_point_landmarks ::
  "('i, 'p) collab \<Rightarrow> ('i, 'p) visual_slam \<Rightarrow> int \<Rightarrow> int list \<Rightarrow> point2 list \<Rightarrow> point3 list
     \<Rightarrow> real list option \<Rightarrow> (unit, ('i, 'p) visual_slam) res" where
  "add_point_landmarks c self xid lids pts pts3d nz =
     (let s0 = self\<lparr>lid_count := (\<lambda>l. lid_count self l + count_list lids l)\<rparr>;
          x_id = symbol CHR ''x'' xid;
          l_ids = map (symbol CHR ''l'') lids;
          nzm = sigmas_or nz (image_measurement_noise s0)
      in if \<not> (length l_ids = length pts \<and> length pts = length pts3d)
         then Raise AssertionError s0
         else
           (let s1 = s0\<lparr>graph := graph s0 @
                       map (\<lambda>(l_id, pt).
                              GenericProjectionFactorPose3Point3Cal3_S2 pt nzm x_id l_id (K s0))
                         (zip l_ids pts)\<rparr>
            in add_point_landmarks_loop c xid (zip l_ids (zip lids pts3d)) s1))"

definition add_point_landmarks_incremental ::
  "('i, 'p) collab \<Rightarrow> ('i, 'p) visual_slam \<Rightarrow> int list \<Rightarrow> point2 list \<Rightarrow> point3 list
     \<Rightarrow> real list option \<Rightarrow> (unit, ('i, 'p) visual_slam) res" where
  "add_point_landmarks_incremental c self lids pts pts3d nz =
     add_point_landmarks c self (latest self) lids pts pts3d nz"

text \<open>
  The loop of \<^verbatim>\<open>add_point_landmarks_smart\<close>.  For an id that is in \<^verbatim>\<open>ls_\<close> the branch
  holds a print under \<^verbatim>\<open>verbose_\<close> and nothing else: the two statements that would add
  the projection factor and the edge are commented out in the source.  Otherwise
  \<^verbatim>\<open>self.lid_factors_[lid]\<close> reads a \<^verbatim>\<open>defaultdict\<close>, which creates the record of a missing
  id.  The smart factor keeps the measurement and the pose key; the noise and the
  calibration that \<^verbatim>\<open>add_single\<close> also receives are the same for every call.
\<close>

fun add_point_landmarks_smart_loop ::
  "key \<Rightarrow> (int \<times> key \<times> point2) list \<Rightarrow> ('i, 'p) visual_slam \<Rightarrow> ('i, 'p) visual_slam" where
  "add_point_landmarks_smart_loop x_id [] self = self"
| "add_point_landmarks_smart_loop x_id ((lid, l_id, pt) # rest) self =
     (if map_of (ls self) lid \<noteq> None then add_point_landmarks_smart_loop x_id rest self
      else
        (let r = (case map_of (lid_factors self) lid of
                    Some r \<Rightarrow> r | None \<Rightarrow> default_lid_factor);
             r1 = r\<lparr>factor := add_single pt x_id (factor r)\<rparr>;
             r2 = r1\<lparr>count := count r1 + 1\<rparr>
         in add_point_landmarks_smart_loop x_id rest
              (self\<lparr>lid_factors := AList.update lid r2 (lid_factors self)\<rparr>)))"

definition add_point_landmarks_smart ::
  "('i, 'p) visual_slam \<Rightarrow> int \<Rightarrow> int list \<Rightarrow> point2 list \<Rightarrow> bool
     \<Rightarrow> (unit, ('i, 'p) visual_slam) res" where
  "add_point_landmarks_smart self xid lids pts keep_tracked =
     (let x_id = symbol CHR ''x'' xid;
          l_ids = map (symbol CHR ''l'') lids
      in if length l_ids \<noteq> length pts then Raise AssertionError self
         else Return () (add_point_landmarks_smart_loop x_id (zip lids (zip l_ids pts)) self))"

definition add_point_landmarks_incremental_smart ::
  "('i, 'p) visual_slam \<Rightarrow> int list \<Rightarrow> point2 list \<Rightarrow> bool
     \<Rightarrow> (unit, ('i, 'p) visual_slam) res" where
  "add_point_landmarks_incremental_smart self lids pts keep_tracked =
     add_point_landmarks_smart self (latest self) lids pts keep_tracked"

text \<open>
  One round of the loop of \<^verbatim>\<open>smart_update\<close>, for the id \<open>lid\<close>; \<open>acc\<close> holds the local
  lists \<^verbatim>\<open>lids\<close> and \<^verbatim>\<open>pts3\<close>.
\<close>

definition smart_update_lid ::
  "('i, 'p) collab \<Rightarrow> 'p Values \<Rightarrow> int \<Rightarrow> int list \<times> point3 list \<Rightarrow> ('i, 'p) visual_slam
     \<Rightarrow> (int list \<times> point3 list, ('i, 'p) visual_slam) res" where
  "smart_update_lid c cur lid acc self =
     (let (lid_factor, self1) =
            (case map_of (lid_factors self) lid of
               Some r \<Rightarrow> (r, self)
             | None \<Rightarrow> (default_lid_factor,
                 self\<lparr>lid_factors := lid_factors self @ [(lid, default_lid_factor)]\<rparr>))
      in if in_graph lid_factor \<or> count lid_factor < min_landmark_obs self1
         then Return acc self1
         else
           (let l_id = symbol CHR ''l'' lid;
                smart = factor lid_factor
            in if isDegenerate c smart \<or> isPointBehindCamera c smart
               then Return acc
                      (self1\<lparr>lid_factors := AList.delete lid (lid_factors self1)\<rparr>)
               else
                 (let err = smart_error c smart cur
                  in if err > px_error_threshold self1 \<or> err \<le> 0
                     then Return acc
                            (self1\<lparr>lid_factors := AList.delete lid (lid_factors self1)\<rparr>)
                     else
                       (let pt3 = point_compute c smart cur
                        in if map_of (ls self1) lid \<noteq> None
                           then Raise AssertionError self1
                           else
                             (case insert_values l_id (Point3 pt3) (initial self1) of
                                Inl e \<Rightarrow> Raise e self1
                              | Inr vs \<Rightarrow>
                                  (let s2 = self1\<lparr>initial := vs,
                                              ls := AList.update lid (LandmarkPoint pt3)
                                                      (ls self1)\<rparr>;
                                       acc2 = (fst acc @ [lid], snd acc @ [pt3]);
                                       x_ids = keys smart;
                                       pts = measured smart
                                   in if length pts \<noteq> length x_ids
                                      then Raise AssertionError s2
                                      else Return acc2
                                        (s2\<lparr>graph := graph s2 @
                                           map (\<lambda>(x_id, pt).
                                                  GenericProjectionFactorPose3Point3Cal3_S2 pt
                                                    (image_measurement_noise s2) x_id l_id
                                                    (K s2))
                                             (zip x_ids pts),
                                           lid_factors :=
                                             AList.delete lid (lid_factors s2)\<rparr>)))))))"

fun smart_update_loop ::
  "('i, 'p) collab \<Rightarrow> 'p Values \<Rightarrow> int list \<Rightarrow> int list \<times> point3 list
     \<Rightarrow> ('i, 'p) visual_slam \<Rightarrow> (int list \<times> point3 list, ('i, 'p) visual_slam) res" where
  "smart_update_loop c cur [] acc self = Return acc self"
| "smart_update_loop c cur (lid # rest) acc self =
     seq (smart_update_lid c cur lid acc self)
       (\<lambda>acc2 s2. smart_update_loop c cur rest acc2 s2)"

fun add_landmark_priors ::
  "(int \<times> point3) list \<Rightarrow> ('i, 'p) visual_slam
     \<Rightarrow> (unit, ('i, 'p) visual_slam) res" where
  "add_landmark_priors [] self = Return () self"
| "add_landmark_priors ((lid, pt3) # rest) self =
     seq (add_landmark_prior self lid pt3 None) (\<lambda>_ s1. add_landmark_priors rest s1)"

text \<open>
  \<^verbatim>\<open>smart_update\<close> returns the ids and the points of the landmarks it has promoted.
  With no promoted landmark \<^verbatim>\<open>np.vstack\<close> raises inside the \<^verbatim>\<open>try\<close>, and the handler
  returns two empty arrays; with some, the two arrays hold the lists.  In both cases the
  value is the pair of the two lists.
\<close>

definition smart_update ::
  "('i, 'p) collab \<Rightarrow> ('i, 'p) visual_slam \<Rightarrow> bool
     \<Rightarrow> (int list \<times> point3 list, ('i, 'p) visual_slam) res" where
  "smart_update c self delete_factors =
     (let cur = calculateEstimate c (slam self)
      in seq (smart_update_loop c cur (dict_keys (lid_factors self)) ([], []) self)
           (\<lambda>(lids, pts3) s1.
              seq (if idx s1 \<le> 2 then add_landmark_priors (zip lids pts3) s1
                   else Return () s1)
                (\<lambda>_ s2. if lids = [] then Return ([], []) s2 else Return (lids, pts3) s2)))"

text \<open>\<^verbatim>\<open>VisualSLAM._update\<close>.  As in the base class, the interactive shell of the handler
  is left out.\<close>

definition VisualSLAM_update ::
  "('i, 'p) collab \<Rightarrow> ('i, 'p) visual_slam \<Rightarrow> (unit, ('i, 'p) visual_slam) res" where
  "VisualSLAM_update c self =
     seq
       (if \<not> batch_init self then
          (let s1 = self\<lparr>batch_init := True\<rparr>
           in case optimize c (graph s1) (initial s1) of
                Inl e \<Rightarrow> Raise RuntimeError s1
              | Inr cur \<Rightarrow>
                  (case isam_update c (slam s1) (graph s1) cur of
                     Raise e i \<Rightarrow> Raise RuntimeError (s1\<lparr>slam := i\<rparr>)
                   | Return _ i \<Rightarrow> Return () (s1\<lparr>slam := i\<rparr>)))
        else
          (case isam_update c (slam self) (graph self) (initial self) of
             Raise e i \<Rightarrow> Raise RuntimeError (self\<lparr>slam := i\<rparr>)
           | Return _ i1 \<Rightarrow>
               (case isam_update0 c i1 of
                  Raise e i \<Rightarrow> Raise RuntimeError (self\<lparr>slam := i\<rparr>)
                | Return _ i2 \<Rightarrow> Return () (self\<lparr>slam := i2\<rparr>))))
       (\<lambda>_ s2. Return () (s2\<lparr>graph := [], initial := [],
                  current := Some (calculateEstimate c (slam s2))\<rparr>))"

subsection \<open>The public operations as a transition system\<close>

datatype 'p op =
    Initialize 'p int "real list option"
  | AddPosePrior int 'p "real list option"
  | AddIncrementalPoseConstraint 'p "real list option"
  | AddRelativePoseConstraint int int 'p "real list option"
  | AddPoseLandmarks int "int list" "'p list" "real list option"
  | AddPoseLandmarksIncremental "int list" "'p list" "real list option"
  | AddPointLandmarks int "int list" "point2 list" "point3 list" "real list option"
  | AddPointLandmarksIncremental "int list" "point2 list" "point3 list" "real list option"
  | AddLandmarkPrior int point3 "real list option"
  | AddPointLandmarksSmart int "int list" "point2 list" bool
  | AddPointLandmarksIncrementalSmart "int list" "point2 list" bool
  | SmartUpdate bool
  | Update
  | BatchSolve
  | UpdateEstimates
  | UpdateMarginals

fun step ::
  "('i, 'p) collab \<Rightarrow> ('i, 'p) visual_slam \<Rightarrow> 'p op \<Rightarrow> (unit, ('i, 'p) visual_slam) res" where
  "step c self (Initialize p ix nz) = initialize self p ix nz"
| "step c self (AddPosePrior ix p nz) = add_pose_prior self ix p nz"
| "step c self (AddIncrementalPoseConstraint delta nz) =
     add_incremental_pose_constraint c self delta nz"
| "step c self (AddRelativePoseConstraint xid1 xid2 delta nz) =
     add_relative_pose_constraint c self xid1 xid2 delta nz"
| "step c self (AddPoseLandmarks xid lids deltas nz) =
     add_pose_landmarks c self xid lids deltas nz"
| "step c self (AddPoseLandmarksIncremental lids deltas nz) =
     add_pose_landmarks_incremental c self lids deltas nz"
| "step c self (AddPointLandmarks xid lids pts pts3d nz) =
     add_point_landmarks c self xid lids pts pts3d nz"
| "step c self (AddPointLandmarksIncremental lids pts pts3d nz) =
     add_point_landmarks_incremental c self lids pts pts3d nz"
| "step c self (AddLandmarkPrior ix p nz) = add_landmark_prior self ix p nz"
| "step c self (AddPointLandmarksSmart xid lids pts kt) =
     add_point_landmarks_smart self xid lids pts kt"
| "step c self (AddPointLandmarksIncrementalSmart lids pts kt) =
     add_point_landmarks_incremental_smart self lids pts kt"
| "step c self (SmartUpdate df) = seq (smart_update c self df) (\<lambda>_ s1. Return () s1)"
| "step c self Update = VisualSLAM_update c self"
| "step c self BatchSolve = batch_solve c self"
| "step c self UpdateEstimates = update_estimates self"
| "step c self UpdateMarginals = update_marginals c self"

text \<open>A caller that goes on after an exception goes on with the object as the raise
  left it.\<close>

fun run ::
  "('i, 'p) collab \<Rightarrow> ('i, 'p) visual_slam \<Rightarrow> 'p op list \<Rightarrow> ('i, 'p) visual_slam" where
  "run c self [] = self"
| "run c self (a # rest) = run c (state_of (step c self a)) rest"

subsection \<open>Call sequences and a concrete collaborator\<close>

text \<open>A sequence of calls of \<^verbatim>\<open>add_incremental_pose_constraint\<close>, one per pair of a
  relative pose and an optional noise vector; it stops at the first call that raises.\<close>

fun add_incremental_pose_constraints ::
  "('i, 'p) collab \<Rightarrow> ('i, 'p, 'z) base_slam_scheme \<Rightarrow> ('p \<times> real list option) list
     \<Rightarrow> (unit, ('i, 'p, 'z) base_slam_scheme) res" where
  "add_incremental_pose_constraints c self [] = Return () self"
| "add_incremental_pose_constraints c self ((delta, nz) # rest) =
     seq (add_incremental_pose_constraint c self delta nz)
       (\<lambda>_ s1. add_incremental_pose_constraints c s1 rest)"

text \<open>
  A collaborator to run the operations on concrete inputs: poses are integers on a
  line, composed by addition; the solver keeps the values it was given and never fails;
  a smart factor is never degenerate, its error is the sum of the second coordinates
  of its measurements, and its point is built from its first measurement.
\<close>

definition line_world :: "(int Values, int) collab" where
  "line_world =
     \<lparr>identity = 0,
      oplus = (\<lambda>a b. a + b),
      transform_from = (\<lambda>p (x, y, z). Some (x + of_int p, y, z)),
      ISAM2 = [],
      isam_update = (\<lambda>i g v. Return () (i @ v)),
      isam_update0 = (\<lambda>i. Return () i),
      calculateEstimate = (\<lambda>i. i),
      marginalCovariance = (\<lambda>i k. Inr []),
      optimize = (\<lambda>g v. Inr v),
      isDegenerate = (\<lambda>f. False),
      isPointBehindCamera = (\<lambda>f. False),
      smart_error = (\<lambda>f cur. sum_list (map snd (measured f))),
      point_compute = (\<lambda>f cur. case measured f of [] \<Rightarrow> (0, 0, 0) | (u, v) # _ \<Rightarrow> (u, v, 1))\<rparr>"

fun is_switchable :: "'p factor \<Rightarrow> bool" where
  "is_switchable (BetweenFactorSwitchableSigmoidPose3 a b sw d n) = True"
| "is_switchable _ = False"

definition extends ::
  "('i, 'p, 'z) base_slam_scheme \<Rightarrow> ('i, 'p, 'z) base_slam_scheme \<Rightarrow> bool" where
  "extends s t \<longleftrightarrow>
     switch t = switch s \<and> robust t = robust s
     \<and> (\<exists>g. graph t = graph s @ g \<and> list_all (\<lambda>f. \<not> is_switchable f) g)
     \<and> (\<exists>v. initial t = initial s @ v \<and> list_all (\<lambda>kv. chr (fst kv) \<noteq> CHR ''s'') v)"

definition vextends :: "('i, 'p) visual_slam \<Rightarrow> ('i, 'p) visual_slam \<Rightarrow> bool" where
  "vextends s t \<longleftrightarrow> extends s t \<and> batch_init t = batch_init s"

fun is_solve :: "'p op \<Rightarrow> bool" where
  "is_solve Update = True"
| "is_solve BatchSolve = True"
| "is_solve UpdateEstimates = True"
| "is_solve UpdateMarginals = True"
| "is_solve _ = False"

fun calls_relative :: "('i, 'p) collab \<Rightarrow> ('i, 'p, 'z) base_slam_scheme \<Rightarrow> 'p op \<Rightarrow> nat" where
  "calls_relative c self (AddRelativePoseConstraint xid1 xid2 delta nz) = 1"
| "calls_relative c self (AddIncrementalPoseConstraint delta nz) =
     (if is_initialized self then 1
      else if returns (initialize self (identity c) 0 None) then 1 else 0)"
| "calls_relative c self _ = 0"

fun calls_relative_run ::
  "('i, 'p) collab \<Rightarrow> ('i, 'p) visual_slam \<Rightarrow> 'p op list \<Rightarrow> nat" where
  "calls_relative_run c self [] = 0"
| "calls_relative_run c self (a # rest) =
     calls_relative c self a + calls_relative_run c (state_of (step c self a)) rest"

definition switch_inv :: "('i, 'p, 'z) base_slam_scheme \<Rightarrow> bool" where
  "switch_inv s \<longleftrightarrow>
     robust s
     \<and> list_all (\<lambda>kv. chr (fst kv) = CHR ''s'' \<longrightarrow>
          0 \<le> index (fst kv) \<and> index (fst kv) < int (length (switch s))) (initial s)
     \<and> switch s = replicate (length (switch s)) 1
     \<and> list_all (\<lambda>j. (symbol CHR ''s'' (int j), SwitchVariableSigmoid 1) \<in> set (initial s)
          \<and> PriorFactorSwitchVariableSigmoid (symbol CHR ''s'' (int j)) 1 (Sigmas [2])
               \<in> set (graph s)) [0..<length (switch s)]
     \<and> length (filter is_switchable (graph s)) = length (switch s)"

fun add_relative_pose_constraints ::
  "('i, 'p) collab \<Rightarrow> ('i, 'p, 'z) base_slam_scheme
     \<Rightarrow> (int \<times> int \<times> 'p \<times> real list option) list \<Rightarrow> ('i, 'p, 'z) base_slam_scheme" where
  "add_relative_pose_constraints c self [] = self"
| "add_relative_pose_constraints c self ((xid1, xid2, delta, nz) # rest) =
     add_relative_pose_constraints c
       (state_of (add_relative_pose_constraint c self xid1 xid2 delta nz)) rest"

text \<open>
  A second collaborator, which records what the incremental solver is given: its state is
  the number of its updates without arguments and the list of the factors and values of
  its updates with arguments, its estimate is the values it was given, and the batch
  optimizer moves every pose by 100.
\<close>

definition tracing_world :: "(nat \<times> (int factor list \<times> int Values) list, int) collab" where
  "tracing_world =
     \<lparr>identity = 0,
      oplus = (\<lambda>a b. a + b),
      transform_from = (\<lambda>p (x, y, z). Some (x + of_int p, y, z)),
      ISAM2 = (0, []),
      isam_update = (\<lambda>i g v. Return () (fst i, snd i @ [(g, v)])),
      isam_update0 = (\<lambda>i. Return () (Suc (fst i), snd i)),
      calculateEstimate = (\<lambda>i. concat (map snd (snd i))),
      marginalCovariance = (\<lambda>i k. Inr []),
      optimize = (\<lambda>g v. Inr (map (\<lambda>kv. (fst kv,
                    case snd kv of Pose3 p \<Rightarrow> Pose3 (p + 100) | w \<Rightarrow> w)) v)),
      isDegenerate = (\<lambda>f. False),
      isPointBehindCamera = (\<lambda>f. False),
      smart_error = (\<lambda>f cur. sum_list (map snd (measured f))),
      point_compute = (\<lambda>f cur. case measured f of [] \<Rightarrow> (0, 0, 0) | (u, v) # _ \<Rightarrow> (u, v, 1))\<rparr>"


fun observes :: "key \<Rightarrow> 'p factor \<Rightarrow> bool" where
  "observes l (GenericProjectionFactorPose3Point3Cal3_S2 pt n x_id l_id k) = (l_id = l)"
| "observes l _ = False"

definition skipped :: "('i, 'p) visual_slam \<Rightarrow> lid_factor \<Rightarrow> bool" where
  "skipped s r \<longleftrightarrow> in_graph r \<or> count r < min_landmark_obs s"

definition rejected ::
  "('i, 'p) collab \<Rightarrow> 'p Values \<Rightarrow> ('i, 'p) visual_slam \<Rightarrow> lid_factor \<Rightarrow> bool" where
  "rejected c cur s r \<longleftrightarrow>
     isDegenerate c (factor r) \<or> isPointBehindCamera c (factor r)
     \<or> smart_error c (factor r) cur > px_error_threshold s
     \<or> smart_error c (factor r) cur \<le> 0"

definition frame_at :: "int \<Rightarrow> ('i, 'p) visual_slam \<Rightarrow> ('i, 'p) visual_slam \<Rightarrow> bool" where
  "frame_at lid s t \<longleftrightarrow>
     map_of (ls t) lid = map_of (ls s) lid
     \<and> map_of (initial t) (symbol CHR ''l'' lid) = map_of (initial s) (symbol CHR ''l'' lid)
     \<and> filter (observes (symbol CHR ''l'' lid)) (graph t)
         = filter (observes (symbol CHR ''l'' lid)) (graph s)"

definition same_settings :: "('i, 'p) visual_slam \<Rightarrow> ('i, 'p) visual_slam \<Rightarrow> bool" where
  "same_settings s t \<longleftrightarrow>
     min_landmark_obs t = min_landmark_obs s \<and> px_error_threshold t = px_error_threshold s
     \<and> K t = K s \<and> image_measurement_noise t = image_measurement_noise s
     \<and> prior_point3d_noise t = prior_point3d_noise s
     \<and> slam t = slam s \<and> idx t = idx s"

definition same_at :: "int \<Rightarrow> ('i, 'p) visual_slam \<Rightarrow> ('i, 'p) visual_slam \<Rightarrow> bool" where
  "same_at lid s t \<longleftrightarrow>
     frame_at lid s t \<and> same_settings s t
     \<and> map_of (lid_factors t) lid = map_of (lid_factors s) lid"




section \<open>Properties\<close>

subsection \<open>Containers\<close>

lemma insert_values_fresh:
  "k \<notin> fst ` set vs \<Longrightarrow> insert_values k v vs = Inr (vs @ [(k, v)])"
  by (simp add: insert_values_def map_of_eq_None_iff)

lemma upto_snoc: "0 \<le> k \<Longrightarrow> [0..k] @ [k + 1] = [0..k + 1]"
  by (simp add: upto_rec2)

lemma upto_edges:
  "0 \<le> n \<Longrightarrow> (k, k + 1) # map (\<lambda>i. (i, i + 1)) [k + 1..k + 1 + n - 1]
     = map (\<lambda>i. (i, i + 1)) [k..k + (1 + n) - 1]"
  by (simp add: upto_rec1 [of k] add.commute add.left_commute)

subsection \<open>The pose chain\<close>

text \<open>
  One odometry call on an initialized engine whose poses are \<open>0..k\<close> and whose pending
  values hold only keys of these poses and of the switches allocated so far: it returns,
  and the next state is of the same kind for \<open>k + 1\<close>.
\<close>

lemma odometry_step:
  assumes k: "idx s = k" "0 \<le> k"
    and poses: "map fst (xs s) = [0..k]"
    and staged: "fst ` set (initial s) \<subseteq>
        symbol CHR ''x'' ` {0..k} \<union> symbol CHR ''s'' ` {0..<int (length (switch s))}"
  shows "\<exists>s'. add_incremental_pose_constraint c s delta nz = Return () s'
      \<and> idx s' = k + 1 \<and> map fst (xs s') = [0..k + 1]
      \<and> fst ` set (initial s') \<subseteq>
           symbol CHR ''x'' ` {0..k + 1} \<union> symbol CHR ''s'' ` {0..<int (length (switch s'))}
      \<and> xxs s' = xxs s @ [(k, k + 1)]
      \<and> map_of (xs s') 0 = map_of (xs s) 0
      \<and> (\<exists>g. graph s' = graph s @ g)"
proof -
  have init: "is_initialized s" using k by (simp add: is_initialized_def latest_def)
  have fresh_s: "symbol CHR ''s'' (int (length (switch s))) \<notin> fst ` set (initial s)"
    using staged by (auto simp: symbol_def)
  have fresh_x: "symbol CHR ''x'' (k + 1) \<notin> fst ` set (initial s)"
    using staged by (auto simp: symbol_def)
  have "k + 1 \<notin> set [0..k]" by simp
  then have nonext: "map_of (xs s) (k + 1) = None"
    using poses by (metis list.set_map map_of_eq_None_iff)
  have "k \<in> set [0..k]" using k(2) by simp
  then have "k \<in> fst ` set (xs s)" using poses by (metis list.set_map)
  then obtain p1 where p1: "map_of (xs s) k = Some p1"
    by (metis map_of_eq_None_iff not_Some_eq)
  have keys': "map fst (AList.update (k + 1) v (xs s)) = [0..k + 1]" for v
    using poses k(2) by (simp add: update_keys upto_snoc)
  show ?thesis
  proof (cases "robust s")
    case True
    have fresh_x': "symbol CHR ''x'' (k + 1) \<notin>
        fst ` set (initial s @
          [(symbol CHR ''s'' (int (length (switch s))), SwitchVariableSigmoid 1)])"
      using fresh_x by (simp add: symbol_def)
    show ?thesis
      using True init k nonext p1 staged
      apply (simp add: add_incremental_pose_constraint_def add_relative_pose_constraint_def
          latest_def Let_def insert_values_fresh[OF fresh_s] insert_values_fresh[OF fresh_x']
          keys')
      apply (auto simp: symbol_def update_conv')
      done
  next
    case False
    show ?thesis
      using False init k nonext p1 staged
      apply (simp add: add_incremental_pose_constraint_def add_relative_pose_constraint_def
          latest_def Let_def insert_values_fresh[OF fresh_x] keys')
      apply (auto simp: symbol_def update_conv')
      done
  qed
qed

lemma odometry_chain:
  assumes "idx s = k" "0 \<le> k" "map fst (xs s) = [0..k]"
    and "fst ` set (initial s) \<subseteq>
        symbol CHR ''x'' ` {0..k} \<union> symbol CHR ''s'' ` {0..<int (length (switch s))}"
  shows "\<exists>s'. add_incremental_pose_constraints c s ds = Return () s'
      \<and> idx s' = k + int (length ds) \<and> map fst (xs s') = [0..k + int (length ds)]
      \<and> xxs s' = xxs s @ map (\<lambda>i. (i, i + 1)) [k..k + int (length ds) - 1]
      \<and> map_of (xs s') 0 = map_of (xs s) 0
      \<and> (\<exists>g. graph s' = graph s @ g)"
  using assms
proof (induction ds arbitrary: s k)
  case Nil
  then show ?case by simp
next
  case (Cons d ds)
  obtain delta nz where d: "d = (delta, nz)" by (cases d)
  from odometry_step [OF Cons.prems, of c delta nz]
  obtain s1 where s1: "add_incremental_pose_constraint c s delta nz = Return () s1"
    "idx s1 = k + 1" "map fst (xs s1) = [0..k + 1]"
    "fst ` set (initial s1) \<subseteq>
       symbol CHR ''x'' ` {0..k + 1} \<union> symbol CHR ''s'' ` {0..<int (length (switch s1))}"
    "xxs s1 = xxs s @ [(k, k + 1)]" "map_of (xs s1) 0 = map_of (xs s) 0"
    "\<exists>g. graph s1 = graph s @ g"
    by blast
  have k1: "0 \<le> k + 1" using Cons.prems(2) by simp
  from Cons.IH [OF s1(2) k1 s1(3) s1(4)]
  obtain s2 where s2: "add_incremental_pose_constraints c s1 ds = Return () s2"
    "idx s2 = k + 1 + int (length ds)" "map fst (xs s2) = [0..k + 1 + int (length ds)]"
    "xxs s2 = xxs s1 @ map (\<lambda>i. (i, i + 1)) [k + 1..k + 1 + int (length ds) - 1]"
    "map_of (xs s2) 0 = map_of (xs s1) 0" "\<exists>g. graph s2 = graph s1 @ g"
    by blast
  have edges: "xxs s2 = xxs s @ map (\<lambda>i. (i, i + 1)) [k..k + int (length (d # ds)) - 1]"
    using s2(4) s1(5) upto_edges [of "int (length ds)" k] by simp
  have "add_incremental_pose_constraints c s (d # ds) = Return () s2"
    using d s1(1) s2(1) by simp
  moreover have "idx s2 = k + int (length (d # ds))" using s2(2) by simp
  moreover have "map fst (xs s2) = [0..k + int (length (d # ds))]"
    using s2(3) by (simp add: add.assoc)
  moreover have "map_of (xs s2) 0 = map_of (xs s) 0" using s2(5) s1(6) by simp
  moreover have "\<exists>g. graph s2 = graph s1 @ g \<and> (\<exists>g1. graph s1 = graph s @ g1)"
    using s2(6) s1(7) by auto
  then have "\<exists>g. graph s2 = graph s @ g" by auto
  ultimately show ?case using edges by blast
qed

lemma initialize_fresh:
  "initialize (BaseSLAM_init c odn prn men rb vb eg) p 0 nz =
     Return () ((BaseSLAM_init c odn prn men rb vb eg)
       \<lparr>graph := [PriorFactorPose3 (symbol CHR ''x'' 0) p (sigmas_or nz (Sigmas prn))],
        initial := [(symbol CHR ''x'' 0, Pose3 p)], xs := [(0, p)], idx := 0\<rparr>)"
  by (simp add: initialize_def BaseSLAM_init_def insert_values_def Let_def)

text \<open>
  C1.  On a new engine, \<^verbatim>\<open>initialize\<close> at index 0 followed by \<open>n\<close> calls of
  \<^verbatim>\<open>add_incremental_pose_constraint\<close> (any relative poses, any noise) returns; the pose
  store then holds exactly the indices \<open>0, \<dots>, n\<close>, each once, \<^verbatim>\<open>latest\<close> is \<open>n\<close>, and the
  edges are those from each index to the next.  On an engine that was never initialized
  the first odometry call initializes pose 0 at the identity, with a prior as the first
  factor, before it adds the constraint, and \<open>n + 1\<close> calls give the indices
  \<open>0, \<dots>, n + 1\<close>.
\<close>

theorem monotonic_pose_chain:
  "(\<exists>s'. seq (initialize (BaseSLAM_init c odn prn men rb vb eg) p 0 nz0)
            (\<lambda>_ s. add_incremental_pose_constraints c s ds) = Return () s'
        \<and> map fst (xs s') = [0..int (length ds)]
        \<and> latest s' = int (length ds)
        \<and> xxs s' = map (\<lambda>i. (i, i + 1)) [0..int (length ds) - 1])
   \<and> (\<exists>s'. add_incremental_pose_constraints c (BaseSLAM_init c odn prn men rb vb eg)
             ((delta, nz) # ds) = Return () s'
        \<and> map_of (xs s') 0 = Some (identity c)
        \<and> hd (graph s') = PriorFactorPose3 (symbol CHR ''x'' 0) (identity c) (Sigmas prn)
        \<and> map fst (xs s') = [0..int (length ds) + 1]
        \<and> latest s' = int (length ds) + 1)"
proof -
  let ?e = "BaseSLAM_init c odn prn men rb vb eg"
  have start: "\<exists>s0. initialize ?e q 0 nzq = Return () s0 \<and> idx s0 = 0
      \<and> map fst (xs s0) = [0..0] \<and> xxs s0 = [] \<and> map_of (xs s0) 0 = Some q
      \<and> graph s0 = [PriorFactorPose3 (symbol CHR ''x'' 0) q (sigmas_or nzq (Sigmas prn))]
      \<and> fst ` set (initial s0) \<subseteq>
          symbol CHR ''x'' ` {0..0} \<union> symbol CHR ''s'' ` {0..<int (length (switch s0))}"
    for q nzq
    by (simp add: initialize_fresh) (simp add: BaseSLAM_init_def)
  have chain: "\<exists>s'. seq (initialize ?e q 0 nzq)
            (\<lambda>_ s. add_incremental_pose_constraints c s es) = Return () s'
        \<and> map fst (xs s') = [0..int (length es)] \<and> latest s' = int (length es)
        \<and> xxs s' = map (\<lambda>i. (i, i + 1)) [0..int (length es) - 1]
        \<and> map_of (xs s') 0 = Some q
        \<and> hd (graph s') = PriorFactorPose3 (symbol CHR ''x'' 0) q (sigmas_or nzq (Sigmas prn))"
    for q nzq es
  proof -
    from start [of q nzq] obtain s0 where s0: "initialize ?e q 0 nzq = Return () s0"
      "idx s0 = 0" "map fst (xs s0) = [0..0]" "xxs s0 = []" "map_of (xs s0) 0 = Some q"
      "graph s0 = [PriorFactorPose3 (symbol CHR ''x'' 0) q (sigmas_or nzq (Sigmas prn))]"
      "fst ` set (initial s0) \<subseteq>
          symbol CHR ''x'' ` {0..0} \<union> symbol CHR ''s'' ` {0..<int (length (switch s0))}"
      by blast
    from odometry_chain [OF s0(2) order_refl s0(3) s0(7), of c es]
    obtain s' where s': "add_incremental_pose_constraints c s0 es = Return () s'"
      "idx s' = 0 + int (length es)" "map fst (xs s') = [0..0 + int (length es)]"
      "xxs s' = xxs s0 @ map (\<lambda>i. (i, i + 1)) [0..0 + int (length es) - 1]"
      "map_of (xs s') 0 = map_of (xs s0) 0" "\<exists>g. graph s' = graph s0 @ g"
      by blast
    have "hd (graph s') = PriorFactorPose3 (symbol CHR ''x'' 0) q (sigmas_or nzq (Sigmas prn))"
      using s'(6) s0(6) by auto
    then show ?thesis
      using s0 s' by (simp add: latest_def)
  qed
  have auto_init: "add_incremental_pose_constraints c ?e ((delta, nz) # ds) =
      seq (initialize ?e (identity c) 0 None)
        (\<lambda>_ s. add_incremental_pose_constraints c s ((delta, nz) # ds))"
    by (simp add: add_incremental_pose_constraint_def initialize_fresh is_initialized_def
        latest_def) (simp add: BaseSLAM_init_def)
  have first: "\<exists>s'. seq (initialize ?e p 0 nz0)
            (\<lambda>_ s. add_incremental_pose_constraints c s ds) = Return () s'
        \<and> map fst (xs s') = [0..int (length ds)] \<and> latest s' = int (length ds)
        \<and> xxs s' = map (\<lambda>i. (i, i + 1)) [0..int (length ds) - 1]"
    using chain [of p nz0 ds] by blast
  from chain [of "identity c" None "(delta, nz) # ds"]
  obtain s' where s': "seq (initialize ?e (identity c) 0 None)
        (\<lambda>_ s. add_incremental_pose_constraints c s ((delta, nz) # ds)) = Return () s'"
      "map fst (xs s') = [0..int (length ((delta, nz) # ds))]"
      "latest s' = int (length ((delta, nz) # ds))"
      "map_of (xs s') 0 = Some (identity c)"
      "hd (graph s') =
         PriorFactorPose3 (symbol CHR ''x'' 0) (identity c) (sigmas_or None (Sigmas prn))"
    by blast
  have "add_incremental_pose_constraints c ?e ((delta, nz) # ds) = Return () s'"
    using s'(1) by (simp only: auto_init)
  moreover have "map fst (xs s') = [0..int (length ds) + 1]"
    using s'(2) by (simp add: add.commute)
  moreover have "latest s' = int (length ds) + 1" using s'(3) by simp
  moreover have "hd (graph s') =
      PriorFactorPose3 (symbol CHR ''x'' 0) (identity c) (Sigmas prn)"
    using s'(5) by (simp add: sigmas_or_def)
  ultimately show ?thesis using first s'(4) by blast
qed

theorem monotonic_pose_chain_witness:
  "\<exists>s'. seq (initialize (BaseSLAM_init line_world [] [] [] True False False) 5 0 None)
           (\<lambda>_ s. add_incremental_pose_constraints line_world s [(1, None), (2, Some [])])
         = Return () s'
       \<and> map fst (xs s') = [0, 1, 2] \<and> latest s' = 2 \<and> xxs s' = [(0, 1), (1, 2)]"
  using monotonic_pose_chain [of line_world "[]" "[]" "[]" True False False 5 None
      "[(1, None), (2, Some [])]" 0 None]
  by (simp add: upto_rec1)

lemma extends_refl [simp]: "extends s s"
  by (simp add: extends_def)

lemma extends_trans:
  assumes "extends s t" "extends t u"
  shows "extends s u"
proof -
  from assms(1) obtain g1 v1 where 1: "switch t = switch s" "robust t = robust s"
      "graph t = graph s @ g1" "list_all (\<lambda>f. \<not> is_switchable f) g1"
      "initial t = initial s @ v1" "list_all (\<lambda>kv. chr (fst kv) \<noteq> CHR ''s'') v1"
    unfolding extends_def by blast
  from assms(2) obtain g2 v2 where 2: "switch u = switch t" "robust u = robust t"
      "graph u = graph t @ g2" "list_all (\<lambda>f. \<not> is_switchable f) g2"
      "initial u = initial t @ v2" "list_all (\<lambda>kv. chr (fst kv) \<noteq> CHR ''s'') v2"
    unfolding extends_def by blast
  show ?thesis
    unfolding extends_def
  proof (intro conjI)
    show "switch u = switch s" using 1(1) 2(1) by simp
    show "robust u = robust s" using 1(2) 2(2) by simp
    show "\<exists>g. graph u = graph s @ g \<and> list_all (\<lambda>f. \<not> is_switchable f) g"
      by (rule exI [of _ "g1 @ g2"]) (simp add: 1(3,4) 2(3,4))
    show "\<exists>v. initial u = initial s @ v \<and> list_all (\<lambda>kv. chr (fst kv) \<noteq> CHR ''s'') v"
      by (rule exI [of _ "v1 @ v2"]) (simp add: 1(5,6) 2(5,6))
  qed
qed

lemma extends_seq:
  assumes "extends s (state_of r)" "\<And>a t. r = Return a t \<Longrightarrow> extends t (state_of (f a t))"
  shows "extends s (state_of (seq r f))"
proof (cases r)
  case (Return a t)
  from Return assms(1) have "extends s t" by simp
  moreover have "extends t (state_of (f a t))" using assms(2) [OF Return] .
  ultimately have "extends s (state_of (f a t))" by (rule extends_trans)
  then show ?thesis using Return by simp
next
  case (Raise e t)
  then show ?thesis using assms(1) by simp
qed

lemma insert_values_cases:
  "insert_values k v vs = Inl ValuesKeyAlreadyExists \<or> insert_values k v vs = Inr (vs @ [(k, v)])"
  by (simp add: insert_values_def)

lemma initialize_extends: "extends s (state_of (initialize s p ix nz))"
  using insert_values_cases [of "symbol CHR ''x'' ix" "Pose3 p" "initial s"]
proof
  assume "insert_values (symbol CHR ''x'' ix) (Pose3 p) (initial s) = Inl ValuesKeyAlreadyExists"
  then show ?thesis by (simp add: initialize_def Let_def extends_def)
next
  assume "insert_values (symbol CHR ''x'' ix) (Pose3 p) (initial s)
            = Inr (initial s @ [(symbol CHR ''x'' ix, Pose3 p)])"
  then show ?thesis by (simp add: initialize_def Let_def extends_def symbol_def)
qed

lemma add_pose_prior_extends: "extends s (state_of (add_pose_prior s ix p nz))"
  by (simp add: add_pose_prior_def extends_def)

lemma add_pose_landmarks_loop_extends:
  fixes s :: "('i, 'p, 'z) base_slam_scheme"
  shows "list_all (\<lambda>it. chr (fst it) \<noteq> CHR ''s'') items
     \<Longrightarrow> extends s (state_of (add_pose_landmarks_loop c xid items s))"
proof (induction items arbitrary: s)
  case Nil
  then show ?case by simp
next
  case (Cons it items)
  obtain l_id lid delta where it: "it = (l_id, lid, delta)" by (cases it)
  have tl: "extends t (state_of (add_pose_landmarks_loop c xid items t))"
    for t :: "('i, 'p, 'z) base_slam_scheme"
    using Cons by simp
  have hd: "chr l_id \<noteq> CHR ''s''" using Cons.prems it by simp
  show ?case
  proof (cases "map_of (ls s) lid = None")
    case False
    then show ?thesis using it tl by auto
  next
    case True
    show ?thesis
    proof (cases "map_of (xs s) xid")
      case None
      then show ?thesis using it True by simp
    next
      case (Some p)
      let ?v = "Pose3 (oplus c p delta)"
      from insert_values_cases [of l_id ?v "initial s"] show ?thesis
      proof
        assume "insert_values l_id ?v (initial s) = Inl ValuesKeyAlreadyExists"
        then show ?thesis using it True Some by (simp add: Let_def)
      next
        assume ins: "insert_values l_id ?v (initial s) = Inr (initial s @ [(l_id, ?v)])"
        let ?t = "s\<lparr>initial := initial s @ [(l_id, ?v)],
                     ls := AList.update lid (LandmarkPose (oplus c p delta)) (ls s)\<rparr>"
        have "extends s ?t" using hd by (simp add: extends_def)
        then show ?thesis
          using it True Some ins tl [of ?t] by (simp add: Let_def extends_trans)
      qed
    qed
  qed
qed

lemma list_all_zip_fst: "list_all P as \<Longrightarrow> list_all (\<lambda>it. P (fst it)) (zip as bs)"
  by (induction as arbitrary: bs) (auto simp: zip_Cons1 split: list.splits)

lemma list_all_symbol: "ch \<noteq> CHR ''s'' \<Longrightarrow> list_all (\<lambda>k. chr k \<noteq> CHR ''s'') (map (symbol ch) ids)"
  by (induction ids) (auto simp: symbol_def)

lemma add_pose_landmarks_extends:
  "extends s (state_of (add_pose_landmarks c s xid lids deltas nz))"
proof -
  let ?l = "map (symbol CHR ''l'') lids"
  let ?g = "map (\<lambda>(l_id, delta). BetweenFactorPose3 (symbol CHR ''x'' xid) l_id delta
             (sigmas_or nz (measurement_noise s))) (zip ?l deltas)"
  let ?t = "s\<lparr>graph := graph s @ ?g, xls := xls s @ map (\<lambda>lid. (xid, lid)) lids\<rparr>"
  have "list_all (\<lambda>f. \<not> is_switchable f) ?g"
    by (auto simp: list_all_iff)
  then have "extends s ?t" by (simp add: extends_def)
  moreover have "extends ?t (state_of (add_pose_landmarks_loop c xid (zip ?l (zip lids deltas)) ?t))"
    by (rule add_pose_landmarks_loop_extends,
        rule list_all_zip_fst [where P = "\<lambda>k. chr k \<noteq> CHR ''s''"])
      (simp add: list_all_symbol)
  ultimately have "extends s
      (state_of (add_pose_landmarks_loop c xid (zip ?l (zip lids deltas)) ?t))"
    by (rule extends_trans)
  then show ?thesis
    by (simp add: add_pose_landmarks_def Let_def)
qed

lemma more_batch_init:
  fixes s t :: "('i, 'p) visual_slam"
  shows "base_slam.more t = base_slam.more s \<Longrightarrow> batch_init t = batch_init s"
  by (cases s, cases t) simp

lemma initialize_more: "base_slam.more (state_of (initialize s p ix nz)) = base_slam.more s"
  by (simp add: initialize_def Let_def split: sum.splits)

lemma add_pose_prior_more:
  "base_slam.more (state_of (add_pose_prior s ix p nz)) = base_slam.more s"
  by (simp add: add_pose_prior_def)

lemma add_relative_pose_constraint_more:
  "base_slam.more (state_of (add_relative_pose_constraint c s a b d nz)) = base_slam.more s"
  by (simp add: add_relative_pose_constraint_def Let_def split: sum.splits option.splits)

lemma add_incremental_pose_constraint_more:
  fixes s :: "('i, 'p, 'z) base_slam_scheme"
  shows "base_slam.more (state_of (add_incremental_pose_constraint c s d nz))
    = base_slam.more s"
proof -
  have 1: "base_slam.more (state_of (seq (add_relative_pose_constraint c t a b d nz)
      (\<lambda>_ s2. Return () (s2\<lparr>idx := idx s2 + 1\<rparr>)))) = base_slam.more t"
    for t :: "('i, 'p, 'z) base_slam_scheme" and a b
    using add_relative_pose_constraint_more [of c t a b d nz]
    by (cases "add_relative_pose_constraint c t a b d nz") simp_all
  show ?thesis
  proof (cases "is_initialized s")
    case True
    then show ?thesis by (simp add: add_incremental_pose_constraint_def 1)
  next
    case False
    then show ?thesis
      using initialize_more [of s "identity c" 0 None]
      by (cases "initialize s (identity c) 0 None")
        (simp_all add: add_incremental_pose_constraint_def 1)
  qed
qed

lemma add_pose_landmarks_loop_more:
  "base_slam.more (state_of (add_pose_landmarks_loop c xid items s)) = base_slam.more s"
  by (induction c xid items s rule: add_pose_landmarks_loop.induct)
    (simp_all add: Let_def split: sum.splits option.splits)

lemma add_pose_landmarks_more:
  "base_slam.more (state_of (add_pose_landmarks c s xid lids deltas nz)) = base_slam.more s"
  by (simp add: add_pose_landmarks_def Let_def add_pose_landmarks_loop_more)

lemma batch_solve_more: "base_slam.more (state_of (batch_solve c s)) = base_slam.more s"
  by (simp add: batch_solve_def split: sum.splits)

lemma batch_solve_switch:
  "switch (state_of (batch_solve c s)) = switch s \<and> robust (state_of (batch_solve c s)) = robust s"
  by (simp add: batch_solve_def split: sum.splits)

lemma update_estimates_poses_frame:
  "base_slam.more (state_of (update_estimates_poses items s)) = base_slam.more s
   \<and> switch (state_of (update_estimates_poses items s)) = switch s
   \<and> robust (state_of (update_estimates_poses items s)) = robust s"
  by (induction items s rule: update_estimates_poses.induct) simp_all

lemma update_estimates_landmarks_frame:
  "base_slam.more (state_of (update_estimates_landmarks items s)) = base_slam.more s
   \<and> switch (state_of (update_estimates_landmarks items s)) = switch s
   \<and> robust (state_of (update_estimates_landmarks items s)) = robust s"
  by (induction items s rule: update_estimates_landmarks.induct) simp_all

lemma update_estimates_switches_frame:
  "base_slam.more (state_of (update_estimates_switches items s)) = base_slam.more s
   \<and> length (switch (state_of (update_estimates_switches items s))) = length (switch s)
   \<and> robust (state_of (update_estimates_switches items s)) = robust s"
  by (induction items s rule: update_estimates_switches.induct) (simp_all add: Let_def)

lemma update_estimates_frame:
  "base_slam.more (state_of (update_estimates s)) = base_slam.more s
   \<and> length (switch (state_of (update_estimates s))) = length (switch s)
   \<and> robust (state_of (update_estimates s)) = robust s"
proof (cases "current s")
  case None
  then show ?thesis by (simp add: update_estimates_def)
next
  case (Some cur)
  show ?thesis
  proof (cases "update_estimates_poses (extractPose3 cur) s")
    case (Raise e t)
    then show ?thesis
      using Some update_estimates_poses_frame [of "extractPose3 cur" s]
      by (simp add: update_estimates_def)
  next
    case (Return u t)
    note p = this
    show ?thesis
    proof (cases "update_estimates_landmarks (extractPoint3 cur) t")
      case (Raise e t2)
      then show ?thesis
        using Some p update_estimates_poses_frame [of "extractPose3 cur" s]
          update_estimates_landmarks_frame [of "extractPoint3 cur" t]
        by (simp add: update_estimates_def)
    next
      case (Return u2 t2)
      then show ?thesis
        using Some p update_estimates_poses_frame [of "extractPose3 cur" s]
          update_estimates_landmarks_frame [of "extractPoint3 cur" t]
          update_estimates_switches_frame [of "extractSwitchVariableSigmoid cur" t2]
        by (simp add: update_estimates_def)
    qed
  qed
qed

lemma update_marginals_poses_frame:
  "base_slam.more (state_of (update_marginals_poses c items s)) = base_slam.more s
   \<and> switch (state_of (update_marginals_poses c items s)) = switch s
   \<and> robust (state_of (update_marginals_poses c items s)) = robust s"
  by (induction c items s rule: update_marginals_poses.induct)
    (simp_all split: sum.splits)

lemma update_marginals_landmarks_frame:
  "base_slam.more (state_of (update_marginals_landmarks c items s)) = base_slam.more s
   \<and> switch (state_of (update_marginals_landmarks c items s)) = switch s
   \<and> robust (state_of (update_marginals_landmarks c items s)) = robust s"
  by (induction c items s rule: update_marginals_landmarks.induct)
    (simp_all split: sum.splits)

lemma update_marginals_frame:
  "base_slam.more (state_of (update_marginals c s)) = base_slam.more s
   \<and> switch (state_of (update_marginals c s)) = switch s
   \<and> robust (state_of (update_marginals c s)) = robust s"
proof (cases "estimate_available s")
  case False
  then show ?thesis by (simp add: update_marginals_def)
next
  case True
  show ?thesis
  proof (cases "update_marginals_poses c (dict_keys (xs s)) s")
    case (Raise e t)
    then show ?thesis
      using True update_marginals_poses_frame [of c "dict_keys (xs s)" s]
      by (simp add: update_marginals_def)
  next
    case (Return u t)
    then show ?thesis
      using True update_marginals_poses_frame [of c "dict_keys (xs s)" s]
        update_marginals_landmarks_frame [of c "dict_keys (ls t)" t]
      by (simp add: update_marginals_def)
  qed
qed

lemma BaseSLAM_update_switch:
  "switch (state_of (BaseSLAM_update c s)) = switch s
   \<and> robust (state_of (BaseSLAM_update c s)) = robust s"
  by (simp add: BaseSLAM_update_def split: res.splits)

lemma VisualSLAM_update_switch:
  "switch (state_of (VisualSLAM_update c s)) = switch s
   \<and> robust (state_of (VisualSLAM_update c s)) = robust s"
  by (simp add: VisualSLAM_update_def Let_def split: res.splits sum.splits)

lemma VisualSLAM_update_batch_init: "batch_init (state_of (VisualSLAM_update c s))"
  by (simp add: VisualSLAM_update_def Let_def split: res.splits sum.splits)

lemma vextends_refl [simp]: "vextends s s"
  by (simp add: vextends_def)

lemma vextends_trans: "vextends s t \<Longrightarrow> vextends t u \<Longrightarrow> vextends s u"
  unfolding vextends_def using extends_trans by fastforce

lemma vextends_seq:
  assumes "vextends s (state_of r)" "\<And>a t. r = Return a t \<Longrightarrow> vextends t (state_of (f a t))"
  shows "vextends s (state_of (seq r f))"
proof (cases r)
  case (Return a t)
  from Return assms(1) have "vextends s t" by simp
  moreover have "vextends t (state_of (f a t))" using assms(2) [OF Return] .
  ultimately have "vextends s (state_of (f a t))" by (rule vextends_trans)
  then show ?thesis using Return by simp
next
  case (Raise e t)
  then show ?thesis using assms(1) by simp
qed

lemma projections_not_switchable:
  "list_all (\<lambda>f. \<not> is_switchable f)
     (map (\<lambda>(a, pt). GenericProjectionFactorPose3Point3Cal3_S2 pt n (g a) (h a) k) zs)"
  by (induction zs) auto

lemma add_landmark_prior_vextends: "vextends s (state_of (add_landmark_prior s ix p nz))"
  by (simp add: add_landmark_prior_def vextends_def extends_def)

lemma add_landmark_priors_vextends: "vextends s (state_of (add_landmark_priors items s))"
proof (induction items arbitrary: s)
  case Nil
  then show ?case by simp
next
  case (Cons it items)
  obtain lid pt3 where it: "it = (lid, pt3)" by (cases it)
  let ?t = "s\<lparr>graph := graph s @
        [PriorFactorPoint3 (symbol CHR ''l'' lid) pt3 (sigmas_or None (prior_point3d_noise s))]\<rparr>"
  have "vextends s ?t" by (simp add: vextends_def extends_def)
  from vextends_trans [OF this Cons.IH [of ?t]] show ?case
    using it by (simp add: add_landmark_prior_def)
qed

lemma add_point_landmarks_loop_vextends:
  "list_all (\<lambda>it. chr (fst it) \<noteq> CHR ''s'') items
     \<Longrightarrow> vextends s (state_of (add_point_landmarks_loop c xid items s))"
proof (induction items arbitrary: s)
  case Nil
  then show ?case by simp
next
  case (Cons it items)
  obtain l_id lid pt3 where it: "it = (l_id, lid, pt3)" by (cases it)
  have tl: "vextends t (state_of (add_point_landmarks_loop c xid items t))" for t
    using Cons by simp
  have hd: "chr l_id \<noteq> CHR ''s''" using Cons.prems it by simp
  show ?case
  proof (cases "map_of (ls s) lid = None")
    case False
    then show ?thesis using it tl by auto
  next
    case True
    show ?thesis
    proof (cases "map_of (xs s) xid")
      case None
      then show ?thesis using it True by simp
    next
      case (Some p)
      show ?thesis
      proof (cases "transform_from c p pt3")
        case None
        then show ?thesis using it True Some by simp
      next
        case (Some q)
        note q = this
        from insert_values_cases [of l_id "Point3 q" "initial s"] show ?thesis
        proof
          assume "insert_values l_id (Point3 q) (initial s) = Inl ValuesKeyAlreadyExists"
          then show ?thesis using it True \<open>map_of (xs s) xid = Some p\<close> q by simp
        next
          assume ins: "insert_values l_id (Point3 q) (initial s)
              = Inr (initial s @ [(l_id, Point3 q)])"
          let ?t = "s\<lparr>initial := initial s @ [(l_id, Point3 q)],
                       ls := AList.update lid (LandmarkPoint q) (ls s)\<rparr>"
          have "vextends s ?t" using hd by (simp add: vextends_def extends_def)
          from vextends_trans [OF this tl [of ?t]] show ?thesis
            using it True \<open>map_of (xs s) xid = Some p\<close> q ins by simp
        qed
      qed
    qed
  qed
qed

lemma add_point_landmarks_vextends:
  "vextends s (state_of (add_point_landmarks c s xid lids pts pts3d nz))"
proof -
  let ?l = "map (symbol CHR ''l'') lids"
  let ?s0 = "s\<lparr>lid_count := (\<lambda>l. lid_count s l + count_list lids l)\<rparr>"
  let ?g = "map (\<lambda>(l_id, pt). GenericProjectionFactorPose3Point3Cal3_S2 pt
              (sigmas_or nz (image_measurement_noise ?s0)) (symbol CHR ''x'' xid) l_id (K ?s0))
            (zip ?l pts)"
  let ?t = "?s0\<lparr>graph := graph ?s0 @ ?g\<rparr>"
  have s0: "vextends s ?s0" by (simp add: vextends_def extends_def)
  have "list_all (\<lambda>f. \<not> is_switchable f) ?g"
    by (auto simp: list_all_iff)
  then have "vextends s ?t" by (simp add: vextends_def extends_def)
  moreover have "vextends ?t
      (state_of (add_point_landmarks_loop c xid (zip ?l (zip lids pts3d)) ?t))"
    by (rule add_point_landmarks_loop_vextends,
        rule list_all_zip_fst [where P = "\<lambda>k. chr k \<noteq> CHR ''s''"])
      (simp add: list_all_symbol)
  ultimately have "vextends s
      (state_of (add_point_landmarks_loop c xid (zip ?l (zip lids pts3d)) ?t))"
    by (rule vextends_trans)
  then show ?thesis
    using s0 by (simp add: add_point_landmarks_def Let_def)
qed

lemma add_point_landmarks_smart_loop_vextends:
  "vextends s (add_point_landmarks_smart_loop x_id items s)"
proof (induction x_id items s rule: add_point_landmarks_smart_loop.induct)
  case (1 x_id self)
  then show ?case by simp
next
  case (2 x_id lid l_id pt rest self)
  show ?case
  proof (cases "map_of (ls self) lid \<noteq> None")
    case True
    then show ?thesis using 2 by simp
  next
    case False
    let ?r = "case map_of (lid_factors self) lid of Some r \<Rightarrow> r | None \<Rightarrow> default_lid_factor"
    let ?r1 = "?r\<lparr>factor := add_single pt x_id (factor ?r)\<rparr>"
    let ?r2 = "?r1\<lparr>count := count ?r1 + 1\<rparr>"
    let ?t = "self\<lparr>lid_factors := AList.update lid ?r2 (lid_factors self)\<rparr>"
    have a: "vextends self ?t" by (simp add: vextends_def extends_def)
    have b: "vextends ?t (add_point_landmarks_smart_loop x_id rest ?t)"
      using 2(2) [OF False refl refl refl] .
    from vextends_trans [OF a b] show ?thesis
      using False by (simp add: Let_def)
  qed
qed

lemma add_point_landmarks_smart_vextends:
  "vextends s (state_of (add_point_landmarks_smart s xid lids pts kt))"
  by (simp add: add_point_landmarks_smart_def Let_def add_point_landmarks_smart_loop_vextends)

lemma smart_update_lid_vextends:
  "vextends s (state_of (smart_update_lid c cur lid acc s))"
proof -
  obtain r s1 where r: "(case map_of (lid_factors s) lid of
               Some r \<Rightarrow> (r, s)
             | None \<Rightarrow> (default_lid_factor,
                 s\<lparr>lid_factors := lid_factors s @ [(lid, default_lid_factor)]\<rparr>)) = (r, s1)"
    by (cases "map_of (lid_factors s) lid") auto
  have s1: "vextends s s1"
    using r by (cases "map_of (lid_factors s) lid") (auto simp: vextends_def extends_def)
  let ?l = "symbol CHR ''l'' lid"
  let ?pt = "point_compute c (factor r) cur"
  have "vextends s1 (state_of (smart_update_lid c cur lid acc s))"
  proof (cases "insert_values ?l (Point3 ?pt) (initial s1)")
    case (Inl e)
    then show ?thesis
      using r by (simp add: smart_update_lid_def Let_def vextends_def extends_def)
  next
    case (Inr vs)
    then have vs: "vs = initial s1 @ [(?l, Point3 ?pt)]"
      using insert_values_cases [of ?l "Point3 ?pt" "initial s1"] by simp
    show ?thesis
      using r Inr
      by (simp add: smart_update_lid_def Let_def vextends_def extends_def vs symbol_def
          projections_not_switchable)
  qed
  with s1 show ?thesis by (rule vextends_trans)
qed

lemma smart_update_loop_vextends:
  "vextends s (state_of (smart_update_loop c cur lids acc s))"
proof (induction lids arbitrary: acc s)
  case Nil
  then show ?case by simp
next
  case (Cons lid lids)
  show ?case
    by (simp, rule vextends_seq, rule smart_update_lid_vextends, rule Cons.IH)
qed

lemma smart_update_vextends:
  fixes s :: "('i, 'p) visual_slam"
  shows "vextends s (state_of (smart_update c s df))"
proof -
  let ?cur = "calculateEstimate c (slam s)"
  have "vextends s (state_of (seq (smart_update_loop c ?cur (dict_keys (lid_factors s)) ([], []) s)
           (\<lambda>(lids, pts3) s1.
              seq (if idx s1 \<le> 2 then add_landmark_priors (zip lids pts3) s1
                   else Return () s1)
                (\<lambda>_ s2. if lids = [] then Return ([], []) s2 else Return (lids, pts3) s2))))"
  proof (rule vextends_seq, rule smart_update_loop_vextends)
    fix a :: "int list \<times> point3 list" and t :: "('i, 'p) visual_slam"
    obtain lids pts3 where a: "a = (lids, pts3)" by (cases a)
    have "vextends t (state_of (seq (if idx t \<le> 2 then add_landmark_priors (zip lids pts3) t
                   else Return () t)
                (\<lambda>_ s2. if lids = [] then Return ([], []) s2 else Return (lids, pts3) s2)))"
      by (rule vextends_seq) (auto simp: add_landmark_priors_vextends)
    then show "vextends t (state_of ((case a of (lids, pts3) \<Rightarrow> \<lambda>s1.
              seq (if idx s1 \<le> 2 then add_landmark_priors (zip lids pts3) s1
                   else Return () s1)
                (\<lambda>_ s2. if lids = [] then Return ([], []) s2 else Return (lids, pts3) s2)) t))"
      using a by simp
  qed
  then show ?thesis by (simp add: smart_update_def Let_def)
qed

lemma filter_not_switchable:
  "list_all (\<lambda>f. \<not> is_switchable f) g \<Longrightarrow> filter is_switchable g = []"
  by (induction g) auto

lemma extends_switch_inv:
  assumes "switch_inv s" "extends s t"
  shows "switch_inv t"
proof -
  from assms(2) obtain g v where e: "switch t = switch s" "robust t = robust s"
      "graph t = graph s @ g" "list_all (\<lambda>f. \<not> is_switchable f) g"
      "initial t = initial s @ v" "list_all (\<lambda>kv. chr (fst kv) \<noteq> CHR ''s'') v"
    unfolding extends_def by blast
  have v: "list_all (\<lambda>kv. chr (fst kv) = CHR ''s'' \<longrightarrow>
          0 \<le> index (fst kv) \<and> index (fst kv) < int (length (switch s))) v"
    using e(6) by (simp add: list_all_iff)
  show ?thesis
    using assms(1) e v unfolding switch_inv_def
    by (auto simp: list_all_iff filter_not_switchable)
qed

lemma add_relative_pose_constraint_robust_state:
  assumes "robust s"
    and fresh: "symbol CHR ''s'' (int (length (switch s))) \<notin> fst ` set (initial s)"
  shows "\<exists>v. switch (state_of (add_relative_pose_constraint c s a b d nz)) = switch s @ [1]
     \<and> robust (state_of (add_relative_pose_constraint c s a b d nz))
     \<and> graph (state_of (add_relative_pose_constraint c s a b d nz)) = graph s @
          [PriorFactorSwitchVariableSigmoid (symbol CHR ''s'' (int (length (switch s)))) 1
             (Sigmas [2]),
           BetweenFactorSwitchableSigmoidPose3 (symbol CHR ''x'' a) (symbol CHR ''x'' b)
             (symbol CHR ''s'' (int (length (switch s)))) d (sigmas_or nz (odo_noise s))]
     \<and> initial (state_of (add_relative_pose_constraint c s a b d nz)) = initial s @
          (symbol CHR ''s'' (int (length (switch s))), SwitchVariableSigmoid 1) # v
     \<and> list_all (\<lambda>kv. chr (fst kv) \<noteq> CHR ''s'') v"
proof -
  let ?sk = "symbol CHR ''s'' (int (length (switch s)))"
  let ?i1 = "initial s @ [(?sk, SwitchVariableSigmoid 1)]"
  have ins: "insert_values ?sk (SwitchVariableSigmoid 1) (initial s) = Inr ?i1"
    using fresh by (rule insert_values_fresh)
  show ?thesis
  proof (cases "map_of (xs s) b = None")
    case False
    then show ?thesis
      using assms(1) ins
      by (auto simp: add_relative_pose_constraint_def Let_def)
  next
    case True
    show ?thesis
    proof (cases "map_of (xs s) a")
      case None
      then show ?thesis
        using assms(1) ins True
        by (auto simp: add_relative_pose_constraint_def Let_def)
    next
      case (Some p1)
      let ?v = "Pose3 (oplus c p1 d)"
      from insert_values_cases [of "symbol CHR ''x'' b" ?v ?i1] show ?thesis
      proof
        assume "insert_values (symbol CHR ''x'' b) ?v ?i1 = Inl ValuesKeyAlreadyExists"
        then show ?thesis
          using assms(1) ins True Some
          by (auto simp: add_relative_pose_constraint_def Let_def)
      next
        assume "insert_values (symbol CHR ''x'' b) ?v ?i1 = Inr (?i1 @ [(symbol CHR ''x'' b, ?v)])"
        then show ?thesis
          using assms(1) ins True Some
          by (auto simp: add_relative_pose_constraint_def Let_def symbol_def)
      qed
    qed
  qed
qed

lemma switch_inv_fresh:
  assumes "switch_inv s"
  shows "symbol CHR ''s'' (int (length (switch s))) \<notin> fst ` set (initial s)"
proof
  assume "symbol CHR ''s'' (int (length (switch s))) \<in> fst ` set (initial s)"
  then obtain kv where kv: "kv \<in> set (initial s)"
      "fst kv = Symbol CHR ''s'' (int (length (switch s)))"
    by (auto simp: symbol_def)
  from assms have "\<forall>kv\<in>set (initial s). chr (fst kv) = CHR ''s'' \<longrightarrow>
      0 \<le> index (fst kv) \<and> index (fst kv) < int (length (switch s))"
    by (simp add: switch_inv_def list_all_iff)
  from bspec [OF this kv(1)] kv(2) show False by simp
qed

lemma add_relative_pose_constraint_switch_inv:
  assumes "switch_inv s"
  shows "switch_inv (state_of (add_relative_pose_constraint c s a b d nz))
     \<and> length (switch (state_of (add_relative_pose_constraint c s a b d nz)))
         = length (switch s) + 1"
proof -
  let ?t = "state_of (add_relative_pose_constraint c s a b d nz)"
  have r: "robust s" using assms by (simp add: switch_inv_def)
  from add_relative_pose_constraint_robust_state [OF r switch_inv_fresh [OF assms], of c a b d nz]
  obtain v where t: "switch ?t = switch s @ [1]" "robust ?t"
    "graph ?t = graph s @
          [PriorFactorSwitchVariableSigmoid (symbol CHR ''s'' (int (length (switch s)))) 1
             (Sigmas [2]),
           BetweenFactorSwitchableSigmoidPose3 (symbol CHR ''x'' a) (symbol CHR ''x'' b)
             (symbol CHR ''s'' (int (length (switch s)))) d (sigmas_or nz (odo_noise s))]"
    "initial ?t = initial s @
          (symbol CHR ''s'' (int (length (switch s))), SwitchVariableSigmoid 1) # v"
    "list_all (\<lambda>kv. chr (fst kv) \<noteq> CHR ''s'') v"
    by blast
  have rep: "switch s = replicate (length (switch s)) 1"
    using assms by (simp add: switch_inv_def)
  have "switch ?t = replicate (length (switch ?t)) 1"
    using t(1) rep by (metis length_append_singleton replicate_Suc replicate_append_same)
  moreover have "list_all (\<lambda>kv. chr (fst kv) = CHR ''s'' \<longrightarrow>
          0 \<le> index (fst kv) \<and> index (fst kv) < int (length (switch ?t))) (initial ?t)"
    using assms t(1,4,5) unfolding switch_inv_def
    by (auto simp: list_all_iff symbol_def)
  moreover have "list_all (\<lambda>j. (symbol CHR ''s'' (int j), SwitchVariableSigmoid 1) \<in> set (initial ?t)
          \<and> PriorFactorSwitchVariableSigmoid (symbol CHR ''s'' (int j)) 1 (Sigmas [2])
               \<in> set (graph ?t)) [0..<length (switch ?t)]"
    using assms t(1,3,4) unfolding switch_inv_def
    by (auto simp: list_all_iff less_Suc_eq)
  moreover have "length (filter is_switchable (graph ?t)) = length (switch ?t)"
    using assms t(1,3) unfolding switch_inv_def by simp
  ultimately show ?thesis
    using t(1,2) unfolding switch_inv_def by simp
qed

lemma extends_switch: "extends s t \<Longrightarrow> switch t = switch s \<and> robust t = robust s"
  by (simp add: extends_def)

lemma add_relative_pose_constraint_length:
  "robust (state_of (add_relative_pose_constraint c s a b d nz)) = robust s
   \<and> length (switch (state_of (add_relative_pose_constraint c s a b d nz)))
       = length (switch s) + (if robust s then 1 else 0)"
  by (simp add: add_relative_pose_constraint_def Let_def split: sum.splits option.splits)

lemma state_of_bump:
  "state_of (seq r (\<lambda>_ s2. Return () (s2\<lparr>idx := idx s2 + 1\<rparr>)))
     = (case r of Return _ s2 \<Rightarrow> s2\<lparr>idx := idx s2 + 1\<rparr> | Raise _ s2 \<Rightarrow> s2)"
  by (cases r) simp_all

lemma switch_inv_idx [simp]: "switch_inv (s\<lparr>idx := k\<rparr>) = switch_inv s"
  by (simp add: switch_inv_def)

lemma relative_then_bump_switch_inv:
  assumes "switch_inv s"
  shows "switch_inv (state_of (seq (add_relative_pose_constraint c s a b d nz)
             (\<lambda>_ s2. Return () (s2\<lparr>idx := idx s2 + 1\<rparr>))))"
  using add_relative_pose_constraint_switch_inv [OF assms, of c a b d nz]
  by (cases "add_relative_pose_constraint c s a b d nz") simp_all

lemma relative_then_bump_length:
  "robust (state_of (seq (add_relative_pose_constraint c s a b d nz)
             (\<lambda>_ s2. Return () (s2\<lparr>idx := idx s2 + 1\<rparr>)))) = robust s
   \<and> length (switch (state_of (seq (add_relative_pose_constraint c s a b d nz)
             (\<lambda>_ s2. Return () (s2\<lparr>idx := idx s2 + 1\<rparr>)))))
       = length (switch s) + (if robust s then 1 else 0)"
  using add_relative_pose_constraint_length [of c s a b d nz]
  by (cases "add_relative_pose_constraint c s a b d nz") simp_all

lemma add_incremental_pose_constraint_length:
  "robust (state_of (add_incremental_pose_constraint c s d nz)) = robust s
   \<and> length (switch (state_of (add_incremental_pose_constraint c s d nz)))
       = length (switch s)
           + (if robust s then calls_relative c s (AddIncrementalPoseConstraint d nz) else 0)"
proof (cases "is_initialized s")
  case True
  then show ?thesis
    using relative_then_bump_length [of c s "latest s" "latest s + 1" d nz]
    by (simp add: add_incremental_pose_constraint_def)
next
  case False
  show ?thesis
  proof (cases "initialize s (identity c) 0 None")
    case (Raise e t)
    then show ?thesis
      using False extends_switch [OF initialize_extends [of s "identity c" 0 None]]
      by (simp add: add_incremental_pose_constraint_def)
  next
    case (Return u t)
    then show ?thesis
      using False extends_switch [OF initialize_extends [of s "identity c" 0 None]]
        relative_then_bump_length [of c t "latest t" "latest t + 1" d nz]
      by (simp add: add_incremental_pose_constraint_def)
  qed
qed

lemma add_incremental_pose_constraint_switch_inv:
  assumes "switch_inv s"
  shows "switch_inv (state_of (add_incremental_pose_constraint c s d nz))"
proof (cases "is_initialized s")
  case True
  then show ?thesis
    using relative_then_bump_switch_inv [OF assms, of c "latest s" "latest s + 1" d nz]
    by (simp add: add_incremental_pose_constraint_def)
next
  case False
  have e: "switch_inv (state_of (initialize s (identity c) 0 None))"
    using extends_switch_inv [OF assms initialize_extends] .
  show ?thesis
  proof (cases "initialize s (identity c) 0 None")
    case (Raise e1 t)
    then show ?thesis
      using False e by (simp add: add_incremental_pose_constraint_def)
  next
    case (Return u t)
    then have "switch_inv t" using e by simp
    from relative_then_bump_switch_inv [OF this, of c "latest t" "latest t + 1" d nz]
    show ?thesis
      using False Return by (simp add: add_incremental_pose_constraint_def)
  qed
qed

lemma vextends_extends: "vextends s t \<Longrightarrow> extends s t"
  by (simp add: vextends_def)

lemma step_extends:
  assumes "\<not> is_solve a" "calls_relative c s a = 0"
  shows "extends s (state_of (step c s a))"
proof (cases a)
  case (Initialize p ix nz)
  then show ?thesis by (simp add: initialize_extends)
next
  case (AddPosePrior ix p nz)
  then show ?thesis by (simp add: add_pose_prior_extends)
next
  case (AddIncrementalPoseConstraint d nz)
  then have ni: "\<not> is_initialized s" "\<not> returns (initialize s (identity c) 0 None)"
    using assms(2) by (auto split: if_splits)
  then obtain e t where "initialize s (identity c) 0 None = Raise e t"
    by (cases "initialize s (identity c) 0 None") auto
  then show ?thesis
    using AddIncrementalPoseConstraint ni(1) initialize_extends [of s "identity c" 0 None]
    by (simp add: add_incremental_pose_constraint_def)
next
  case (AddRelativePoseConstraint a b d nz)
  then show ?thesis using assms(2) by simp
next
  case (AddPoseLandmarks xid lids deltas nz)
  then show ?thesis by (simp add: add_pose_landmarks_extends)
next
  case (AddPoseLandmarksIncremental lids deltas nz)
  then show ?thesis
    by (simp add: add_pose_landmarks_incremental_def add_pose_landmarks_extends)
next
  case (AddPointLandmarks xid lids pts pts3d nz)
  then show ?thesis by (simp add: vextends_extends [OF add_point_landmarks_vextends])
next
  case (AddPointLandmarksIncremental lids pts pts3d nz)
  then show ?thesis
    by (simp add: add_point_landmarks_incremental_def
        vextends_extends [OF add_point_landmarks_vextends])
next
  case (AddLandmarkPrior ix p nz)
  then show ?thesis by (simp add: vextends_extends [OF add_landmark_prior_vextends])
next
  case (AddPointLandmarksSmart xid lids pts kt)
  then show ?thesis by (simp add: vextends_extends [OF add_point_landmarks_smart_vextends])
next
  case (AddPointLandmarksIncrementalSmart lids pts kt)
  then show ?thesis
    by (simp add: add_point_landmarks_incremental_smart_def
        vextends_extends [OF add_point_landmarks_smart_vextends])
next
  case (SmartUpdate df)
  have "state_of (seq (smart_update c s df) (\<lambda>_ s1. Return () s1)) = state_of (smart_update c s df)"
    by (cases "smart_update c s df") simp_all
  then show ?thesis
    using SmartUpdate by (simp add: vextends_extends [OF smart_update_vextends])
next
  case Update
  then show ?thesis using assms(1) by simp
next
  case BatchSolve
  then show ?thesis using assms(1) by simp
next
  case UpdateEstimates
  then show ?thesis using assms(1) by simp
next
  case UpdateMarginals
  then show ?thesis using assms(1) by simp
qed

lemma step_switch_inv:
  assumes "switch_inv s" "\<not> is_solve a"
  shows "switch_inv (state_of (step c s a))"
proof (cases "calls_relative c s a = 0")
  case True
  from extends_switch_inv [OF assms(1) step_extends [OF assms(2) True]] show ?thesis .
next
  case False
  then show ?thesis
  proof (cases a)
    case (AddIncrementalPoseConstraint d nz)
    then show ?thesis
      using add_incremental_pose_constraint_switch_inv [OF assms(1)] by simp
  next
    case (AddRelativePoseConstraint a b d nz)
    then show ?thesis
      using add_relative_pose_constraint_switch_inv [OF assms(1)] by simp
  qed simp_all
qed

lemma step_switch_length:
  "robust (state_of (step c s a)) = robust s
   \<and> length (switch (state_of (step c s a)))
       = length (switch s) + (if robust s then calls_relative c s a else 0)"
proof (cases "\<not> is_solve a \<and> calls_relative c s a = 0")
  case True
  then show ?thesis using extends_switch [OF step_extends [of a c s]] by simp
next
  case False
  then show ?thesis
  proof (cases a)
    case (AddIncrementalPoseConstraint d nz)
    then show ?thesis using add_incremental_pose_constraint_length [of c s d nz] by simp
  next
    case (AddRelativePoseConstraint a b d nz)
    then show ?thesis using add_relative_pose_constraint_length [of c s a b d nz] by simp
  next
    case Update
    then show ?thesis using VisualSLAM_update_switch [of c s] by simp
  next
    case BatchSolve
    then show ?thesis using batch_solve_switch [of c s] by simp
  next
    case UpdateEstimates
    then show ?thesis using update_estimates_frame [of s] by simp
  next
    case UpdateMarginals
    then show ?thesis using update_marginals_frame [of c s] by simp
  qed simp_all
qed

lemma run_switch_length:
  "robust (run c s ops) = robust s
   \<and> length (switch (run c s ops))
       = length (switch s) + (if robust s then calls_relative_run c s ops else 0)"
proof (induction ops arbitrary: s)
  case Nil
  then show ?case by simp
next
  case (Cons a ops)
  show ?case
    using Cons.IH [of "state_of (step c s a)"] step_switch_length [of c s a]
    by simp
qed

lemma run_switch_inv:
  "switch_inv s \<Longrightarrow> list_all (\<lambda>a. \<not> is_solve a) ops \<Longrightarrow> switch_inv (run c s ops)"
proof (induction ops arbitrary: s)
  case Nil
  then show ?case by simp
next
  case (Cons a ops)
  then show ?case using step_switch_inv [of s a c] by simp
qed

lemma step_batch_init:
  assumes "a \<noteq> Update"
  shows "batch_init (state_of (step c s a)) = batch_init s"
proof (cases a)
  case (Initialize p ix nz)
  then show ?thesis using more_batch_init [OF initialize_more [of s p ix nz]] by simp
next
  case (AddPosePrior ix p nz)
  then show ?thesis using more_batch_init [OF add_pose_prior_more [of s ix p nz]] by simp
next
  case (AddIncrementalPoseConstraint d nz)
  then show ?thesis
    using more_batch_init [OF add_incremental_pose_constraint_more [of c s d nz]] by simp
next
  case (AddRelativePoseConstraint a b d nz)
  then show ?thesis
    using more_batch_init [OF add_relative_pose_constraint_more [of c s a b d nz]] by simp
next
  case (AddPoseLandmarks xid lids deltas nz)
  then show ?thesis
    using more_batch_init [OF add_pose_landmarks_more [of c s xid lids deltas nz]] by simp
next
  case (AddPoseLandmarksIncremental lids deltas nz)
  then show ?thesis
    using more_batch_init [OF add_pose_landmarks_more [of c s "latest s" lids deltas nz]]
    by (simp add: add_pose_landmarks_incremental_def)
next
  case (AddPointLandmarks xid lids pts pts3d nz)
  then show ?thesis
    using add_point_landmarks_vextends [of s c xid lids pts pts3d nz]
    by (simp add: vextends_def)
next
  case (AddPointLandmarksIncremental lids pts pts3d nz)
  then show ?thesis
    using add_point_landmarks_vextends [of s c "latest s" lids pts pts3d nz]
    by (simp add: vextends_def add_point_landmarks_incremental_def)
next
  case (AddLandmarkPrior ix p nz)
  then show ?thesis
    using add_landmark_prior_vextends [of s ix p nz] by (simp add: vextends_def)
next
  case (AddPointLandmarksSmart xid lids pts kt)
  then show ?thesis
    using add_point_landmarks_smart_vextends [of s xid lids pts kt] by (simp add: vextends_def)
next
  case (AddPointLandmarksIncrementalSmart lids pts kt)
  then show ?thesis
    using add_point_landmarks_smart_vextends [of s "latest s" lids pts kt]
    by (simp add: vextends_def add_point_landmarks_incremental_smart_def)
next
  case (SmartUpdate df)
  have "state_of (seq (smart_update c s df) (\<lambda>_ s1. Return () s1)) = state_of (smart_update c s df)"
    by (cases "smart_update c s df") simp_all
  then show ?thesis
    using SmartUpdate smart_update_vextends [of s c df] by (simp add: vextends_def)
next
  case Update
  then show ?thesis using assms by simp
next
  case BatchSolve
  then show ?thesis using more_batch_init [OF batch_solve_more [of c s]] by simp
next
  case UpdateEstimates
  then show ?thesis
    using more_batch_init [of "state_of (update_estimates s)" s] update_estimates_frame [of s]
    by simp
next
  case UpdateMarginals
  then show ?thesis
    using more_batch_init [of "state_of (update_marginals c s)" s]
      update_marginals_frame [of c s]
    by simp
qed

lemma step_batch_init_mono:
  "batch_init s \<Longrightarrow> batch_init (state_of (step c s a))"
  using step_batch_init [of a c s] VisualSLAM_update_batch_init [of c s]
  by (cases "a = Update") simp_all

lemma BaseSLAM_init_switch_inv:
  "switch_inv (BaseSLAM_init c odn prn men rb vb eg)
   \<and> switch (BaseSLAM_init c odn prn men rb vb eg) = []"
  by (simp add: switch_inv_def BaseSLAM_init_def)

lemma VisualSLAM_init_switch_inv:
  assumes "VisualSLAM_init c men cal mo odn prn p3n thr pxn vb = Inr e"
  shows "switch_inv e \<and> switch e = [] \<and> robust e \<and> \<not> batch_init e \<and> 2 \<le> min_landmark_obs e"
  using assms
  by (cases cal)
    (auto simp: VisualSLAM_init_def Let_def switch_inv_def BaseSLAM_init_def
      base_slam.defs visual_slam.defs split: if_splits)

lemma add_relative_pose_constraints_switch_inv:
  "switch_inv s \<Longrightarrow>
     switch_inv (add_relative_pose_constraints c s cs)
     \<and> length (switch (add_relative_pose_constraints c s cs)) = length (switch s) + length cs"
proof (induction cs arbitrary: s)
  case Nil
  then show ?case by simp
next
  case (Cons x cs)
  obtain a b d nz where x: "x = (a, b, d, nz)" by (cases x)
  from add_relative_pose_constraint_switch_inv [OF Cons.prems, of c a b d nz]
  have 1: "switch_inv (state_of (add_relative_pose_constraint c s a b d nz))"
    "length (switch (state_of (add_relative_pose_constraint c s a b d nz)))
       = length (switch s) + 1"
    by simp_all
  from Cons.IH [OF 1(1)] 1(2) show ?case using x by simp
qed

lemma switch_inv_staged:
  assumes "switch_inv s" "length (switch s) = k"
  shows "switch s = replicate k 1
     \<and> (\<forall>j<k. (symbol CHR ''s'' (int j), SwitchVariableSigmoid 1) \<in> set (initial s)
            \<and> PriorFactorSwitchVariableSigmoid (symbol CHR ''s'' (int j)) 1 (Sigmas [2])
                 \<in> set (graph s))
     \<and> length (filter is_switchable (graph s)) = k"
  using assms unfolding switch_inv_def by (auto simp: list_all_iff)

text \<open>
  C2.  The constructor leaves the engine in robust mode with no switch.  After \<open>k\<close> calls of
  \<^verbatim>\<open>add_relative_pose_constraint\<close> on a new engine, returning or raising, the switch list
  is \<open>k\<close> times the confidence 1, each switch \<open>j < k\<close> has its value 1 staged in the pending
  values and its unary prior in the pending graph, and the pending graph holds \<open>k\<close>
  switchable constraints.  The same holds for any sequence of operations without a solve
  on a \<^verbatim>\<open>VisualSLAM\<close> engine, \<open>k\<close> being the number of calls of
  \<^verbatim>\<open>add_relative_pose_constraint\<close> the sequence makes (directly or through the odometry
  operation).  With solves in the sequence the number of switches still is that number
  of calls, and no operation ever shortens the switch list.
\<close>

theorem switch_count_invariant:
  assumes "VisualSLAM_init c men cal mo odn prn p3n thr pxn vb = Inr e"
  shows
   "(switch (add_relative_pose_constraints c (BaseSLAM_init c odn prn men rb vb eg) cs)
        = replicate (length cs) 1
     \<and> (\<forall>j<length cs.
          (symbol CHR ''s'' (int j), SwitchVariableSigmoid 1)
             \<in> set (initial (add_relative_pose_constraints c
                   (BaseSLAM_init c odn prn men rb vb eg) cs))
          \<and> PriorFactorSwitchVariableSigmoid (symbol CHR ''s'' (int j)) 1 (Sigmas [2])
             \<in> set (graph (add_relative_pose_constraints c
                   (BaseSLAM_init c odn prn men rb vb eg) cs)))
     \<and> length (filter is_switchable (graph (add_relative_pose_constraints c
                   (BaseSLAM_init c odn prn men rb vb eg) cs))) = length cs)
    \<and> (list_all (\<lambda>a. \<not> is_solve a) ops \<longrightarrow>
         switch (run c e ops) = replicate (calls_relative_run c e ops) 1
         \<and> (\<forall>j<calls_relative_run c e ops.
              (symbol CHR ''s'' (int j), SwitchVariableSigmoid 1) \<in> set (initial (run c e ops))
              \<and> PriorFactorSwitchVariableSigmoid (symbol CHR ''s'' (int j)) 1 (Sigmas [2])
                   \<in> set (graph (run c e ops)))
         \<and> length (filter is_switchable (graph (run c e ops))) = calls_relative_run c e ops)
    \<and> length (switch (run c e allops)) = calls_relative_run c e allops
    \<and> length (switch t) \<le> length (switch (state_of (step c t a)))
    \<and> length (switch b) \<le> length (switch (state_of (BaseSLAM_update c b)))"
proof -
  let ?b = "BaseSLAM_init c odn prn men rb vb eg"
  from add_relative_pose_constraints_switch_inv [of ?b c cs] BaseSLAM_init_switch_inv [of c odn prn men rb vb eg]
  have b: "switch_inv (add_relative_pose_constraints c ?b cs)"
    "length (switch (add_relative_pose_constraints c ?b cs)) = length cs"
    by simp_all
  note 1 = switch_inv_staged [OF b]
  from VisualSLAM_init_switch_inv [OF assms]
  have e: "switch_inv e" "switch e = []" "robust e" by simp_all
  have len: "length (switch (run c e os)) = calls_relative_run c e os" for os
    using run_switch_length [of c e os] e by simp
  have 2: "list_all (\<lambda>a. \<not> is_solve a) ops \<longrightarrow>
         switch (run c e ops) = replicate (calls_relative_run c e ops) 1
         \<and> (\<forall>j<calls_relative_run c e ops.
              (symbol CHR ''s'' (int j), SwitchVariableSigmoid 1) \<in> set (initial (run c e ops))
              \<and> PriorFactorSwitchVariableSigmoid (symbol CHR ''s'' (int j)) 1 (Sigmas [2])
                   \<in> set (graph (run c e ops)))
         \<and> length (filter is_switchable (graph (run c e ops))) = calls_relative_run c e ops"
  proof
    assume "list_all (\<lambda>a. \<not> is_solve a) ops"
    from run_switch_inv [OF e(1) this, of c] len [of ops]
    show "switch (run c e ops) = replicate (calls_relative_run c e ops) 1
         \<and> (\<forall>j<calls_relative_run c e ops.
              (symbol CHR ''s'' (int j), SwitchVariableSigmoid 1) \<in> set (initial (run c e ops))
              \<and> PriorFactorSwitchVariableSigmoid (symbol CHR ''s'' (int j)) 1 (Sigmas [2])
                   \<in> set (graph (run c e ops)))
         \<and> length (filter is_switchable (graph (run c e ops))) = calls_relative_run c e ops"
      by (rule switch_inv_staged)
  qed
  have 3: "length (switch t) \<le> length (switch (state_of (step c t a)))"
    using step_switch_length [of c t a] by simp
  have 4: "length (switch b) \<le> length (switch (state_of (BaseSLAM_update c b)))"
    using BaseSLAM_update_switch [of c b] by simp
  show ?thesis
    using 1 2 len [of allops] 3 4 by blast
qed

theorem switch_count_invariant_witness:
  "\<exists>e. VisualSLAM_init line_world [] (1, 1, 0, 0) 2 [] [] [] 4 [] False = Inr e
     \<and> switch (run line_world e
          [Initialize 0 0 None, AddRelativePoseConstraint 0 1 1 None,
           AddRelativePoseConstraint 1 2 1 None]) = replicate 2 1
     \<and> length (switch (run line_world e
          [Initialize 0 0 None, AddRelativePoseConstraint 0 1 1 None, Update,
           AddRelativePoseConstraint 1 2 1 None])) = 2"
proof -
  let ?ops = "[Initialize 0 0 None, AddRelativePoseConstraint 0 1 1 None,
           AddRelativePoseConstraint 1 2 1 None] :: int op list"
  let ?all = "[Initialize 0 0 None, AddRelativePoseConstraint 0 1 1 None, Update,
           AddRelativePoseConstraint 1 2 1 None] :: int op list"
  obtain e where e: "VisualSLAM_init line_world [] (1, 1, 0, 0) 2 [] [] [] 4 [] False = Inr e"
    by (simp add: VisualSLAM_init_def)
  note T = switch_count_invariant [OF e, where ops = ?ops and allops = ?all]
  have l: "list_all (\<lambda>a. \<not> is_solve a) ?ops" by simp
  have c1: "calls_relative_run line_world e ?ops = 2" by simp
  have c2: "calls_relative_run line_world e ?all = 2" by simp
  have a: "switch (run line_world e ?ops) = replicate (calls_relative_run line_world e ?ops) 1"
    using T l by blast
  have b: "length (switch (run line_world e ?all)) = calls_relative_run line_world e ?all"
    using T by blast
  show ?thesis
    using e a b unfolding c1 c2 by blast
qed

lemma run_batch_init: "batch_init (run c s ops) = (batch_init s \<or> Update \<in> set ops)"
proof (induction ops arbitrary: s)
  case Nil
  then show ?case by simp
next
  case (Cons a ops)
  show ?case
  proof (cases "a = Update")
    case True
    then show ?thesis
      using Cons [of "state_of (step c s a)"] VisualSLAM_update_batch_init [of c s] by simp
  next
    case False
    then show ?thesis
      using Cons [of "state_of (step c s a)"] step_batch_init [OF False, of c s] by auto
  qed
qed

lemma VisualSLAM_update_batch:
  "\<not> batch_init s \<Longrightarrow> VisualSLAM_update c s =
     (case optimize c (graph s) (initial s) of
        Inl x \<Rightarrow> Raise RuntimeError (s\<lparr>batch_init := True\<rparr>)
      | Inr cur \<Rightarrow>
          (case isam_update c (slam s) (graph s) cur of
             Raise x i \<Rightarrow> Raise RuntimeError (s\<lparr>batch_init := True, slam := i\<rparr>)
           | Return u i \<Rightarrow>
               Return () (s\<lparr>batch_init := True, slam := i, graph := [], initial := [],
                 current := Some (calculateEstimate c i)\<rparr>)))"
  by (simp add: VisualSLAM_update_def Let_def split: sum.splits res.splits)

lemma VisualSLAM_update_incremental:
  "batch_init s \<Longrightarrow> VisualSLAM_update c s =
     (case isam_update c (slam s) (graph s) (initial s) of
        Raise x i \<Rightarrow> Raise RuntimeError (s\<lparr>slam := i\<rparr>)
      | Return u i1 \<Rightarrow>
          (case isam_update0 c i1 of
             Raise x i \<Rightarrow> Raise RuntimeError (s\<lparr>slam := i\<rparr>)
           | Return u2 i2 \<Rightarrow>
               Return () (s\<lparr>slam := i2, graph := [], initial := [],
                 current := Some (calculateEstimate c i2)\<rparr>)))"
  by (simp add: VisualSLAM_update_def Let_def split: sum.splits res.splits)

lemma VisualSLAM_update_returns:
  "VisualSLAM_update c s = Return u t \<Longrightarrow>
     graph t = [] \<and> initial t = [] \<and> current t = Some (calculateEstimate c (slam t))
     \<and> batch_init t"
  by (auto simp: VisualSLAM_update_def Let_def split: sum.splits res.splits if_splits)

text \<open>
  C8 as stated fails in one point: the first update is not without an incremental step.
  It runs the batch optimizer and then calls the update of the incremental solver with
  the pending factors and the optimizer's result; on the recording collaborator the
  solver has received, after the first update, the prior of pose 0 with the optimized
  value 105 of the staged 5.
\<close>

theorem first_update_counterexample:
  "\<exists>e s1 s2. VisualSLAM_init tracing_world [] (1, 1, 0, 0) 2 [] [] [] 4 [] False = Inr e
     \<and> initialize e 5 0 None = Return () s1
     \<and> \<not> batch_init s1
     \<and> VisualSLAM_update tracing_world s1 = Return () s2
     \<and> slam s2 = (0, [([PriorFactorPose3 (symbol CHR ''x'' 0) 5 (Sigmas [])],
                        [(symbol CHR ''x'' 0, Pose3 105)])])"
  by (simp add: VisualSLAM_init_def)
    (simp add: BaseSLAM_init_def base_slam.defs visual_slam.defs initialize_def
      insert_values_def Let_def VisualSLAM_update_def tracing_world_def sigmas_or_def)

text \<open>
  C8, amended.  A new engine has not done its batch initialization, and the flag is set
  exactly by the calls of the update operation: after any sequence of operations it is
  set if and only if the sequence holds an update.  An update on an engine whose flag is
  not set (the first one) sets the flag, runs the batch optimizer on the pending factors
  and values, and then calls the update of the incremental solver with the pending
  factors and the optimizer's result as their values; it leaves out only the solver's
  update without arguments.  An update on an engine whose flag is set calls the solver's
  update with the pending factors and the pending values, then its update without
  arguments, and does not consult the batch optimizer.  A failure of the optimizer or of
  the solver is raised as a \<^verbatim>\<open>RuntimeError\<close>, the buffers left as they are.  An update
  that returns has emptied the pending factors and the pending values and has set the
  current estimate to the estimate the solver then computes.
\<close>

theorem first_update_is_batch:
  assumes "VisualSLAM_init c men cal mo odn prn p3n thr pxn vb = Inr e"
  shows
   "\<not> batch_init e
    \<and> batch_init (run c e ops) = (Update \<in> set ops)
    \<and> batch_init (state_of (VisualSLAM_update c s))
    \<and> (\<not> batch_init s \<longrightarrow> VisualSLAM_update c s =
         (case optimize c (graph s) (initial s) of
            Inl x \<Rightarrow> Raise RuntimeError (s\<lparr>batch_init := True\<rparr>)
          | Inr cur \<Rightarrow>
              (case isam_update c (slam s) (graph s) cur of
                 Raise x i \<Rightarrow> Raise RuntimeError (s\<lparr>batch_init := True, slam := i\<rparr>)
               | Return u i \<Rightarrow>
                   Return () (s\<lparr>batch_init := True, slam := i, graph := [], initial := [],
                     current := Some (calculateEstimate c i)\<rparr>))))
    \<and> (batch_init s \<longrightarrow> VisualSLAM_update c s =
         (case isam_update c (slam s) (graph s) (initial s) of
            Raise x i \<Rightarrow> Raise RuntimeError (s\<lparr>slam := i\<rparr>)
          | Return u i1 \<Rightarrow>
              (case isam_update0 c i1 of
                 Raise x i \<Rightarrow> Raise RuntimeError (s\<lparr>slam := i\<rparr>)
               | Return u2 i2 \<Rightarrow>
                   Return () (s\<lparr>slam := i2, graph := [], initial := [],
                     current := Some (calculateEstimate c i2)\<rparr>))))
    \<and> (VisualSLAM_update c s = Return () t \<longrightarrow>
         graph t = [] \<and> initial t = []
         \<and> current t = Some (calculateEstimate c (slam t)))"
proof -
  have e: "\<not> batch_init e" using VisualSLAM_init_switch_inv [OF assms] by simp
  then have "batch_init (run c e ops) = (Update \<in> set ops)"
    by (simp add: run_batch_init)
  then show ?thesis
    using e VisualSLAM_update_batch_init [of c s] VisualSLAM_update_batch [of s c]
      VisualSLAM_update_incremental [of s c] VisualSLAM_update_returns [of c s "()" t]
    by blast
qed

theorem first_update_witness:
  "\<exists>e s1 s2 s3 s4.
     VisualSLAM_init tracing_world [] (1, 1, 0, 0) 2 [] [] [] 4 [] False = Inr e
     \<and> initialize e 5 0 None = Return () s1
     \<and> VisualSLAM_update tracing_world s1 = Return () s2
     \<and> slam s2 = (0, [([PriorFactorPose3 (symbol CHR ''x'' 0) 5 (Sigmas [])],
                        [(symbol CHR ''x'' 0, Pose3 105)])])
     \<and> graph s2 = [] \<and> initial s2 = []
     \<and> current s2 = Some [(symbol CHR ''x'' 0, Pose3 105)]
     \<and> initialize s2 7 1 None = Return () s3
     \<and> VisualSLAM_update tracing_world s3 = Return () s4
     \<and> slam s4 = (1, [([PriorFactorPose3 (symbol CHR ''x'' 0) 5 (Sigmas [])],
                        [(symbol CHR ''x'' 0, Pose3 105)]),
                       ([PriorFactorPose3 (symbol CHR ''x'' 1) 7 (Sigmas [])],
                        [(symbol CHR ''x'' 1, Pose3 7)])])
     \<and> graph s4 = [] \<and> initial s4 = []
     \<and> current s4 = Some [(symbol CHR ''x'' 0, Pose3 105), (symbol CHR ''x'' 1, Pose3 7)]"
proof -
  let ?P0 = "PriorFactorPose3 (symbol CHR ''x'' 0) (5 :: int) (Sigmas [])"
  let ?P1 = "PriorFactorPose3 (symbol CHR ''x'' 1) (7 :: int) (Sigmas [])"
  let ?i2 = "(0 :: nat, [([?P0], [(symbol CHR ''x'' 0, Pose3 (105 :: int))])])"
  let ?i4 = "(1 :: nat, [([?P0], [(symbol CHR ''x'' 0, Pose3 (105 :: int))]),
                         ([?P1], [(symbol CHR ''x'' 1, Pose3 7)])])"
  have "\<exists>e s1 s2 s3 s4.
     VisualSLAM_init tracing_world [] (1, 1, 0, 0) 2 [] [] [] 4 [] False = Inr e
     \<and> initialize e 5 0 None = Return () s1
     \<and> VisualSLAM_update tracing_world s1 = Return () s2
     \<and> slam s2 = ?i2
     \<and> initialize s2 7 1 None = Return () s3
     \<and> VisualSLAM_update tracing_world s3 = Return () s4
     \<and> slam s4 = ?i4"
    by (simp add: VisualSLAM_init_def)
      (simp add: BaseSLAM_init_def base_slam.defs visual_slam.defs initialize_def
        insert_values_def Let_def VisualSLAM_update_def tracing_world_def sigmas_or_def)
  then obtain e s1 s2 s3 s4 where
    e: "VisualSLAM_init tracing_world [] (1, 1, 0, 0) 2 [] [] [] 4 [] False = Inr e"
    and 1: "initialize e 5 0 None = Return () s1"
    and 2: "VisualSLAM_update tracing_world s1 = Return () s2"
    and i2: "slam s2 = ?i2"
    and 3: "initialize s2 7 1 None = Return () s3"
    and 4: "VisualSLAM_update tracing_world s3 = Return () s4"
    and i4: "slam s4 = ?i4"
    by blast
  note T = first_update_is_batch [OF e]
  have c2: "graph s2 = [] \<and> initial s2 = []
      \<and> current s2 = Some (calculateEstimate tracing_world (slam s2))"
    using T [where s = s1 and t = s2] 2 by blast
  have c4: "graph s4 = [] \<and> initial s4 = []
      \<and> current s4 = Some (calculateEstimate tracing_world (slam s4))"
    using T [where s = s3 and t = s4] 4 by blast
  have e2: "calculateEstimate tracing_world (slam s2) = [(symbol CHR ''x'' 0, Pose3 105)]"
    unfolding i2 by (simp add: tracing_world_def)
  have e4: "calculateEstimate tracing_world (slam s4)
      = [(symbol CHR ''x'' 0, Pose3 105), (symbol CHR ''x'' 1, Pose3 7)]"
    unfolding i4 by (simp add: tracing_world_def)
  show ?thesis
    apply (rule exI [of _ e], rule exI [of _ s1], rule exI [of _ s2], rule exI [of _ s3],
        rule exI [of _ s4])
    using e 1 2 3 4 i2 i4 c2 c4 e2 e4 apply (simp only:)
    done
qed

text \<open>
  C3.  The constructor does not read its argument \<^verbatim>\<open>robust\<close>: an engine constructed with
  \<^verbatim>\<open>robust=False\<close> is in robust mode, and a relative-pose constraint on it allocates the
  switch 0, stages it, adds its prior and adds the constraint in switchable form.
\<close>

theorem robust_argument_ignored:
  "robust (BaseSLAM_init c odn prn men False vb eg)
   \<and> (\<exists>s1 s2. initialize (BaseSLAM_init c odn prn men False vb eg) p 0 None = Return () s1
        \<and> add_relative_pose_constraint c s1 0 1 d nz = Return () s2
        \<and> switch s2 = [1]
        \<and> initial s2 = [(symbol CHR ''x'' 0, Pose3 p),
                         (symbol CHR ''s'' 0, SwitchVariableSigmoid 1),
                         (symbol CHR ''x'' 1, Pose3 (oplus c p d))]
        \<and> graph s2 = [PriorFactorPose3 (symbol CHR ''x'' 0) p (Sigmas prn),
             PriorFactorSwitchVariableSigmoid (symbol CHR ''s'' 0) 1 (Sigmas [2]),
             BetweenFactorSwitchableSigmoidPose3 (symbol CHR ''x'' 0) (symbol CHR ''x'' 1)
               (symbol CHR ''s'' 0) d (sigmas_or nz (Sigmas odn))])"
  by (simp add: initialize_fresh)
    (simp add: BaseSLAM_init_def add_relative_pose_constraint_def Let_def insert_values_def
      symbol_def sigmas_or_def)

text \<open>The branch that the claim describes is in the code: with the attribute
  \<^verbatim>\<open>robust_\<close> unset, the constraint is a plain one and no switch is touched.\<close>

lemma plain_constraint_when_not_robust:
  "\<not> robust s \<Longrightarrow>
     switch (state_of (add_relative_pose_constraint c s a b d nz)) = switch s
     \<and> (\<exists>v. initial (state_of (add_relative_pose_constraint c s a b d nz)) = initial s @ v
           \<and> list_all (\<lambda>kv. chr (fst kv) \<noteq> CHR ''s'') v)
     \<and> graph (state_of (add_relative_pose_constraint c s a b d nz)) = graph s @
          [BetweenFactorPose3 (symbol CHR ''x'' a) (symbol CHR ''x'' b) d
             (sigmas_or nz (odo_noise s))]"
  by (auto simp: add_relative_pose_constraint_def Let_def insert_values_def symbol_def
      split: option.splits)

text \<open>
  C9 as stated fails: \<^verbatim>\<open>initialize\<close> has no check of the latest index.  On an initialized
  engine a second call at another index returns at once, and after an update (which
  empties the pending values) a second call at index 0 returns and replaces pose 0.
\<close>

theorem initialize_twice_counterexample:
  "\<exists>s1 s2 s3 s4.
     initialize (BaseSLAM_init line_world [] [] [] True False False) 5 0 None = Return () s1
     \<and> is_initialized s1 \<and> latest s1 = 0
     \<and> initialize s1 9 3 None = Return () s4 \<and> latest s4 = 3
     \<and> BaseSLAM_update line_world s1 = Return () s2
     \<and> is_initialized s2 \<and> map_of (xs s2) 0 = Some 5
     \<and> initialize s2 7 0 None = Return () s3
     \<and> map_of (xs s3) 0 = Some 7 \<and> latest s3 = 0"
  by (simp add: initialize_fresh)
    (simp add: BaseSLAM_init_def initialize_def BaseSLAM_update_def is_initialized_def
      latest_def line_world_def insert_values_def symbol_def Let_def)

text \<open>
  C9, amended.  Whatever the latest index is, \<^verbatim>\<open>initialize\<close> adds the prior on the pose;
  when no value for that pose is pending it returns, having staged the pose, stored it
  (replacing a stored one) and set the latest index; when a value for that pose is
  pending, the insertion into the pending values raises, the prior staying in the pending
  graph.
\<close>

theorem initialize_unguarded:
  "(symbol CHR ''x'' ix \<notin> fst ` set (initial s) \<longrightarrow>
      initialize s p ix nz =
        Return () (s\<lparr>graph := graph s @
            [PriorFactorPose3 (symbol CHR ''x'' ix) p (sigmas_or nz (prior_pose_noise s))],
          initial := initial s @ [(symbol CHR ''x'' ix, Pose3 p)],
          xs := AList.update ix p (xs s), idx := ix\<rparr>))
   \<and> (symbol CHR ''x'' ix \<in> fst ` set (initial s) \<longrightarrow>
      initialize s p ix nz =
        Raise ValuesKeyAlreadyExists (s\<lparr>graph := graph s @
            [PriorFactorPose3 (symbol CHR ''x'' ix) p (sigmas_or nz (prior_pose_noise s))]\<rparr>))"
  by (auto simp: initialize_def Let_def insert_values_def map_of_eq_None_iff)

theorem initialize_unguarded_witness:
  "is_initialized (state_of (BaseSLAM_update line_world
       (state_of (initialize (BaseSLAM_init line_world [] [] [] True False False) 5 0 None))))
   \<and> returns (initialize (state_of (BaseSLAM_update line_world
       (state_of (initialize (BaseSLAM_init line_world [] [] [] True False False) 5 0 None))))
       7 0 None)
   \<and> \<not> returns (initialize
       (state_of (initialize (BaseSLAM_init line_world [] [] [] True False False) 5 0 None))
       7 0 None)"
proof -
  let ?s1 = "state_of (initialize (BaseSLAM_init line_world [] [] [] True False False) 5 0 None)"
  let ?s2 = "state_of (BaseSLAM_update line_world ?s1)"
  have i1: "initial ?s1 = [(symbol CHR ''x'' 0, Pose3 5)] \<and> idx ?s1 = 0"
    by (simp add: initialize_fresh)
  have i2: "initial ?s2 = [] \<and> idx ?s2 = 0"
    by (simp add: initialize_fresh) (simp add: BaseSLAM_update_def line_world_def
        BaseSLAM_init_def)
  have a: "symbol CHR ''x'' 0 \<notin> fst ` set (initial ?s2)" using i2 by simp
  have b: "symbol CHR ''x'' 0 \<in> fst ` set (initial ?s1)" using i1 by simp
  from initialize_unguarded [of 0 ?s2 7 None] a
  have 1: "returns (initialize ?s2 7 0 None)" by simp
  from initialize_unguarded [of 0 ?s1 7 None] b
  have 2: "\<not> returns (initialize ?s1 7 0 None)" by simp
  show ?thesis using 1 2 i2 by (simp add: is_initialized_def latest_def)
qed

lemma same_at_refl [simp]: "same_at lid s s"
  by (simp add: same_at_def frame_at_def same_settings_def)






lemma smart_update_lid_skip:
  "map_of (lid_factors s) lid = Some r \<Longrightarrow> skipped s r
     \<Longrightarrow> smart_update_lid c cur lid acc s = Return acc s"
  by (simp add: smart_update_lid_def skipped_def)

lemma smart_update_lid_reject:
  "map_of (lid_factors s) lid = Some r \<Longrightarrow> \<not> skipped s r \<Longrightarrow> rejected c cur s r
     \<Longrightarrow> smart_update_lid c cur lid acc s
           = Return acc (s\<lparr>lid_factors := AList.delete lid (lid_factors s)\<rparr>)"
  by (auto simp: smart_update_lid_def skipped_def rejected_def Let_def)













lemma add_landmark_priors_eq:
  "add_landmark_priors items s =
     Return () (s\<lparr>graph := graph s @
        map (\<lambda>(lid, pt3). PriorFactorPoint3 (symbol CHR ''l'' lid) pt3 (prior_point3d_noise s))
          items\<rparr>)"
proof (induction items arbitrary: s)
  case Nil
  then show ?case by simp
next
  case (Cons it items)
  obtain lid pt3 where it: "it = (lid, pt3)" by (cases it)
  show ?case
    using it by (simp add: add_landmark_prior_def sigmas_or_def Cons)
qed



lemma smart_update_eq:
  "smart_update c s df =
     (case smart_update_loop c (calculateEstimate c (slam s)) (dict_keys (lid_factors s))
             ([], []) s of
        Raise e t \<Rightarrow> Raise e t
      | Return acc t \<Rightarrow>
          Return (if fst acc = [] then ([], []) else acc)
            (if idx t \<le> 2
             then t\<lparr>graph := graph t @
                    map (\<lambda>(lid, pt3). PriorFactorPoint3 (symbol CHR ''l'' lid) pt3
                           (prior_point3d_noise t)) (zip (fst acc) (snd acc))\<rparr>
             else t))"
  by (simp add: smart_update_def Let_def add_landmark_priors_eq split: res.splits prod.splits)



lemma dict_keys_set: "set (dict_keys d) = fst ` set d"
  by (simp add: dict_keys_def)

lemma dict_keys_present: "k \<in> set (dict_keys d) \<longleftrightarrow> map_of d k \<noteq> None"
  by (simp add: dict_keys_def map_of_eq_None_iff)





lemma add_point_landmarks_smart_loop_known:
  "list_all (\<lambda>it. map_of (ls s) (fst it) \<noteq> None) items
     \<Longrightarrow> add_point_landmarks_smart_loop x_id items s = s"
  by (induction x_id items s rule: add_point_landmarks_smart_loop.induct) auto

lemma list_all_zip_fst2: "list_all P as \<Longrightarrow> list_all (\<lambda>it. P (fst it)) (zip as bs)"
  by (induction as arbitrary: bs) (auto simp: zip_Cons1 split: list.splits)

text \<open>
  C7.  The code does not do what the claim says: for ids that are in the landmark store,
  \<^verbatim>\<open>add_point_landmarks_smart\<close> changes nothing at all.  No factor is added to the graph,
  no edge is recorded and no pending record is touched; the call returns the engine as it
  was (or fails its length assertion).
\<close>

theorem promoted_observation_dropped:
  "list_all (\<lambda>lid. map_of (ls s) lid \<noteq> None) lids \<longrightarrow>
     add_point_landmarks_smart s xid lids pts kt =
       (if length lids = length pts then Return () s else Raise AssertionError s)"
proof
  assume a: "list_all (\<lambda>lid. map_of (ls s) lid \<noteq> None) lids"
  have "list_all (\<lambda>it. map_of (ls s) (fst it) \<noteq> None)
      (zip lids (zip (map (symbol CHR ''l'') lids) pts))"
    using list_all_zip_fst2 [where P = "\<lambda>lid. map_of (ls s) lid \<noteq> None", OF a] .
  from add_point_landmarks_smart_loop_known [OF this]
  show "add_point_landmarks_smart s xid lids pts kt =
       (if length lids = length pts then Return () s else Raise AssertionError s)"
    by (simp add: add_point_landmarks_smart_def Let_def)
qed

theorem promoted_observation_dropped_witness:
  "\<exists>e. VisualSLAM_init line_world [] (1, 1, 0, 0) 2 [] [] [] 4 [] False = Inr e
     \<and> add_point_landmarks_smart (e\<lparr>ls := [(7, LandmarkPoint (0, 1, 1))]\<rparr>) 3 [7] [(5, 6)] True
         = Return () (e\<lparr>ls := [(7, LandmarkPoint (0, 1, 1))]\<rparr>)"
proof -
  obtain e :: "(int Values, int) visual_slam"
    where e: "VisualSLAM_init line_world [] (1, 1, 0, 0) 2 [] [] [] 4 [] False = Inr e"
    by (simp add: VisualSLAM_init_def)
  let ?s = "e\<lparr>ls := [(7, LandmarkPoint (0, 1, 1))]\<rparr>"
  have "list_all (\<lambda>lid. map_of (ls ?s) lid \<noteq> None) [7]" by simp
  with promoted_observation_dropped [of ?s "[7]" 3 "[(5, 6)]" True]
  have "add_point_landmarks_smart ?s 3 [7] [(5, 6)] True = Return () ?s" by simp
  with e show ?thesis by blast
qed

lemma smart_update_loop_none:
  assumes "distinct ks"
    and "\<forall>k\<in>set ks. \<exists>r. map_of (lid_factors s) k = Some r
           \<and> (skipped s r \<or> rejected c cur s r)"
  shows "\<exists>d. smart_update_loop c cur ks acc s = Return acc (s\<lparr>lid_factors := d\<rparr>)"
  using assms
proof (induction ks arbitrary: s)
  case Nil
  have "s = s\<lparr>lid_factors := lid_factors s\<rparr>" by simp
  then show ?case by (metis smart_update_loop.simps(1))
next
  case (Cons k ks)
  from Cons.prems(2) obtain r where r: "map_of (lid_factors s) k = Some r"
    "skipped s r \<or> rejected c cur s r" by auto
  have d: "distinct ks" "k \<notin> set ks" using Cons.prems(1) by simp_all
  show ?case
  proof (cases "skipped s r")
    case True
    from Cons.IH [OF d(1), of s] Cons.prems(2)
    obtain d' where "smart_update_loop c cur ks acc s = Return acc (s\<lparr>lid_factors := d'\<rparr>)"
      by auto
    then show ?thesis
      using smart_update_lid_skip [OF r(1) True, of c cur acc]
      by (intro exI [of _ d']) simp
  next
    case False
    then have rj: "rejected c cur s r" using r(2) by simp
    let ?s1 = "s\<lparr>lid_factors := AList.delete k (lid_factors s)\<rparr>"
    have p: "\<forall>k'\<in>set ks. \<exists>r'. map_of (lid_factors ?s1) k' = Some r'
           \<and> (skipped ?s1 r' \<or> rejected c cur ?s1 r')"
    proof
      fix k' assume k': "k' \<in> set ks"
      then have ne: "k' \<noteq> k" using d(2) by auto
      from Cons.prems(2) k' obtain r' where "map_of (lid_factors s) k' = Some r'"
        "skipped s r' \<or> rejected c cur s r'" by auto
      then show "\<exists>r'. map_of (lid_factors ?s1) k' = Some r'
           \<and> (skipped ?s1 r' \<or> rejected c cur ?s1 r')"
        using ne by (simp add: skipped_def rejected_def)
    qed
    from Cons.IH [OF d(1) p]
    obtain d' where "smart_update_loop c cur ks acc ?s1 = Return acc (?s1\<lparr>lid_factors := d'\<rparr>)"
      by auto
    then show ?thesis
      using smart_update_lid_reject [OF r(1) False rj, of acc]
      by (intro exI [of _ d']) simp
  qed
qed

text \<open>
  C10.  When every pending record is skipped (already in the graph, or too few
  observations) or rejected (degenerate, behind a camera, error above the threshold or
  not positive), the settle pass returns, and what it returns is the pair of the empty
  list of ids and the empty list of points; it has added no factor, staged no value and
  committed no landmark.
\<close>

theorem settle_returns_empty:
  "(\<forall>lid r. map_of (lid_factors s) lid = Some r \<longrightarrow>
        skipped s r \<or> rejected c (calculateEstimate c (slam s)) s r) \<longrightarrow>
   (\<exists>t. smart_update c s df = Return ([], []) t
        \<and> graph t = graph s \<and> initial t = initial s \<and> ls t = ls s)"
proof
  let ?cur = "calculateEstimate c (slam s)"
  let ?ks = "dict_keys (lid_factors s)"
  assume a: "\<forall>lid r. map_of (lid_factors s) lid = Some r \<longrightarrow>
        skipped s r \<or> rejected c ?cur s r"
  have p: "\<forall>k\<in>set ?ks. \<exists>r. map_of (lid_factors s) k = Some r
           \<and> (skipped s r \<or> rejected c ?cur s r)"
    using a by (auto simp: dict_keys_present)
  have d: "distinct ?ks" by (simp add: dict_keys_def)
  from smart_update_loop_none [OF d p, of "([], [])"]
  obtain d' where "smart_update_loop c ?cur ?ks ([], []) s = Return ([], []) (s\<lparr>lid_factors := d'\<rparr>)"
    by auto
  then show "\<exists>t. smart_update c s df = Return ([], []) t
        \<and> graph t = graph s \<and> initial t = initial s \<and> ls t = ls s"
    by (simp add: smart_update_eq)
qed

theorem settle_returns_empty_witness:
  "\<exists>e s1 s2 t. VisualSLAM_init line_world [] (1, 1, 0, 0) 2 [] [] [] 4 [] False = Inr e
     \<and> add_point_landmarks_smart e 0 [7, 8] [(0, 10), (0, 1)] True = Return () s1
     \<and> add_point_landmarks_smart s1 1 [7] [(0, 10)] True = Return () s2
     \<and> map_of (lid_factors s2) 7 \<noteq> None \<and> map_of (lid_factors s2) 8 \<noteq> None
     \<and> smart_update line_world s2 True = Return ([], []) t
     \<and> graph t = [] \<and> initial t = [] \<and> ls t = []"
proof -
  let ?r7 = "\<lparr>in_graph = False, count = 2,
      factor = \<lparr>keys = [symbol CHR ''x'' 0, symbol CHR ''x'' 1], measured = [(0, 10), (0, 10)]\<rparr>\<rparr>"
  let ?r8 = "\<lparr>in_graph = False, count = 1,
      factor = \<lparr>keys = [symbol CHR ''x'' 0], measured = [(0, 1)]\<rparr>\<rparr>"
  have "\<exists>e s1 s2. VisualSLAM_init line_world [] (1, 1, 0, 0) 2 [] [] [] 4 [] False = Inr e
     \<and> add_point_landmarks_smart e 0 [7, 8] [(0, 10), (0, 1)] True = Return () s1
     \<and> add_point_landmarks_smart s1 1 [7] [(0, 10)] True = Return () s2
     \<and> lid_factors s2 = [(7, ?r7), (8, ?r8)]
     \<and> min_landmark_obs s2 = 2 \<and> px_error_threshold s2 = 4
     \<and> graph s2 = [] \<and> initial s2 = [] \<and> ls s2 = []"
    by (simp add: VisualSLAM_init_def)
      (simp add: BaseSLAM_init_def base_slam.defs visual_slam.defs
        add_point_landmarks_smart_def Let_def default_lid_factor_def SmartFactor_def
        add_single_def)
  then obtain e s1 s2 where
    e: "VisualSLAM_init line_world [] (1, 1, 0, 0) 2 [] [] [] 4 [] False = Inr e"
    and 1: "add_point_landmarks_smart e 0 [7, 8] [(0, 10), (0, 1)] True = Return () s1"
    and 2: "add_point_landmarks_smart s1 1 [7] [(0, 10)] True = Return () s2"
    and d: "lid_factors s2 = [(7, ?r7), (8, ?r8)]"
    and m: "min_landmark_obs s2 = 2" "px_error_threshold s2 = 4"
    and b: "graph s2 = []" "initial s2 = []" "ls s2 = []"
    by blast
  have p: "\<forall>lid r. map_of (lid_factors s2) lid = Some r \<longrightarrow>
        skipped s2 r \<or> rejected line_world (calculateEstimate line_world (slam s2)) s2 r"
    unfolding d using m
    by (auto simp: skipped_def rejected_def line_world_def split: if_splits)
  from settle_returns_empty [of s2 line_world True] p
  obtain t where t: "smart_update line_world s2 True = Return ([], []) t"
    "graph t = graph s2" "initial t = initial s2" "ls t = ls s2"
    by blast
  have k: "map_of (lid_factors s2) 7 \<noteq> None \<and> map_of (lid_factors s2) 8 \<noteq> None"
    unfolding d by simp
  show ?thesis
    apply (rule exI [of _ e], rule exI [of _ s1], rule exI [of _ s2], rule exI [of _ t])
    using e 1 2 k t b apply (simp only:)
    apply simp
    done
qed
















end
